theory Spec2Isabelle
  imports Main "HOL-Library.Word" "HOL-Library.Sublist"
begin

section \<open>Reading pnCCD frms6 files: a model of \<open>stemtool/util/pnccd.py\<close>\<close>

text \<open>
  The module reads a binary frame-stream format. Its functions are modelled as pure
  functions on the file's bytes; every exception the Python can raise on the modelled
  paths is a value of \<open>error\<close>, returned as \<open>Inl\<close>. Python integers are \<open>int\<close>
  (or \<open>nat\<close> where the source cannot produce a negative value), bytes are \<open>8 word\<close>,
  detector samples are \<open>16 word\<close>. Native byte order is taken to be little-endian and
  the native C types those of an LP64 platform, where \<open>Py_ssize_t\<close>, numpy's \<open>npy_intp\<close>
  and the file offset \<open>off_t\<close> are signed 64-bit integers; their ceilings are part of
  the model. The largest offset the file system of the file takes is a parameter
  \<open>lim\<close> of every function that seeks. The interpreter is CPython from 3.11 on, with
  its default limit on the digits of an integer turned into a string. The memory a
  call needs is outside the model.

  The model starts below the import lines of the module. Its sixth line is a
  \<open>from __future__\<close> import, which Python accepts at the beginning of a file only; the
  functions are modelled as they run once that line stands first.
\<close>

datatype error =
    StructError         \<comment> \<open>\<open>struct.error\<close>: bad format string, or a buffer of the wrong size\<close>
  | Warning             \<comment> \<open>the built-in \<open>Warning\<close>, raised by \<open>getDataShape\<close>\<close>
  | ValueError          \<comment> \<open>numpy: bad shape or buffer size; an offset or a string too long\<close>
  | OSError             \<comment> \<open>a seek to a position the system refuses\<close>
  | OverflowError       \<comment> \<open>true division whose result exceeds the largest float\<close>
  | ZeroDivisionError
  | TypeError           \<comment> \<open>subscripting \<open>None\<close>, \<open>int\<close> of a value that is no number\<close>
  | KeyError            \<comment> \<open>a key missing from a dictionary, a path missing from a container\<close>
  | IndexError          \<comment> \<open>more indices than an array has axes, an axis out of range\<close>

type_synonym byte = "8 word"
type_synonym uint16 = "16 word"

subsection \<open>\<open>struct.calcsize\<close>\<close>

text \<open>
  The format language of Python's \<open>struct\<close> module, as far as sizes go. A format is an
  optional byte-order character followed by items, each an optional decimal repeat
  count and a one-character code. Whitespace between items is skipped; a count must
  be followed at once by its code. In native mode (\<open>@\<close>, the default) every item is
  aligned to its C type; in the standard modes (\<open>=\<close>, \<open><\<close>, \<open>></\<close>, \<open>!\<close>) nothing is.
  Counts and sizes are \<open>Py_ssize_t\<close> values: a count, or a total size, above
  \<open>PY_SSIZE_T_MAX\<close> is refused with \<open>struct.error\<close>.
\<close>

definition PY_SSIZE_T_MAX :: nat where
  "PY_SSIZE_T_MAX = 2 ^ 63 - 1"

definition is_digit :: "char \<Rightarrow> bool" where
  "is_digit c = (c \<in> set ''0123456789'')"

text \<open>The value of a digit is its place among the digits.\<close>

definition digit_val :: "char \<Rightarrow> nat" where
  "digit_val c = length (takeWhile (\<lambda>d. d \<noteq> c) ''0123456789'')"

definition is_space :: "char \<Rightarrow> bool" where
  "is_space c = (c \<in> set [CHR '' '', CHR 0x09, CHR 0x0A, CHR 0x0B, CHR 0x0C, CHR 0x0D])"

text \<open>Size and alignment of a code in native mode.\<close>

definition native_entry :: "char \<Rightarrow> (nat \<times> nat) option" where
  "native_entry c =
    (if c \<in> set ''xbBcsp?'' then Some (1, 1)
     else if c \<in> set ''hHe'' then Some (2, 2)
     else if c \<in> set ''iIf'' then Some (4, 4)
     else if c \<in> set ''lLqQnNdP'' then Some (8, 8)
     else None)"

text \<open>Size of a code in the standard modes, where nothing is aligned.\<close>

definition standard_entry :: "char \<Rightarrow> (nat \<times> nat) option" where
  "standard_entry c =
    (if c \<in> set ''xbBcsp?'' then Some (1, 1)
     else if c \<in> set ''hHe'' then Some (2, 1)
     else if c \<in> set ''iIlLf'' then Some (4, 1)
     else if c \<in> set ''qQd'' then Some (8, 1)
     else None)"

definition align_to :: "nat \<Rightarrow> nat \<Rightarrow> nat" where
  "align_to sz a = ((sz + a - 1) div a) * a"

text \<open>
  The scan of the items. \<open>cnt\<close> is the repeat count read so far (\<open>None\<close> between
  items), \<open>sz\<close> the bytes laid out so far.
\<close>

fun calc_items :: "bool \<Rightarrow> string \<Rightarrow> nat option \<Rightarrow> nat \<Rightarrow> error + nat" where
  "calc_items native [] cnt sz =
     (case cnt of None \<Rightarrow> Inr sz | Some n \<Rightarrow> Inl StructError)"
| "calc_items native (c # cs) cnt sz =
     (if cnt = None \<and> is_space c then calc_items native cs None sz
      else if is_digit c then
        (if PY_SSIZE_T_MAX < (case cnt of None \<Rightarrow> 0 | Some n \<Rightarrow> 10 * n) + digit_val c
         then Inl StructError
         else
           calc_items native cs
             (Some ((case cnt of None \<Rightarrow> 0 | Some n \<Rightarrow> 10 * n) + digit_val c)) sz)
      else
        (case (if native then native_entry c else standard_entry c) of
           None \<Rightarrow> Inl StructError
         | Some e \<Rightarrow>
             if PY_SSIZE_T_MAX <
                  align_to sz (snd e) + (case cnt of None \<Rightarrow> 1 | Some n \<Rightarrow> n) * fst e
             then Inl StructError
             else
               calc_items native cs None
                 (align_to sz (snd e) + (case cnt of None \<Rightarrow> 1 | Some n \<Rightarrow> n) * fst e)))"

definition calcsize :: "string \<Rightarrow> error + nat" where
  "calcsize fmt =
    (case fmt of
       [] \<Rightarrow> Inr 0
     | c # cs \<Rightarrow>
         if c = CHR ''@'' then calc_items True cs None 0
         else if c \<in> set ''=<>!'' then calc_items False cs None 0
         else calc_items True fmt None 0)"

subsection \<open>\<open>str\<close> of an integer\<close>

definition digit_char :: "nat \<Rightarrow> char" where
  "digit_char d = ''0123456789'' ! d"

fun str_nat :: "nat \<Rightarrow> string" where
  "str_nat n =
     (if n < 10 then [digit_char n]
      else str_nat (n div 10) @ [digit_char (n mod 10)])"

declare str_nat.simps [simp del]

text \<open>
  \<open>str(i)\<close>. From CPython 3.11 on the conversion refuses, with \<open>ValueError\<close>, an integer of
  more than \<open>max_str_digits\<close> decimal digits; 4300 is the default of the interpreter.
\<close>

definition max_str_digits :: nat where
  "max_str_digits = 4300"

definition str_int :: "int \<Rightarrow> error + string" where
  "str_int i =
    (if 10 ^ max_str_digits \<le> abs i then Inl ValueError
     else Inr (if i < 0 then CHR ''-'' # str_nat (nat (- i)) else str_nat (nat i)))"

subsection \<open>The layout constants of \<open>Frms6Reader\<close>\<close>

definition fileHeaderFormat :: string where
  "fileHeaderFormat = ''='' @ ''H'' @ ''H'' @ ''B'' @ ''B'' @ ''B'' @ ''B'' @ ''80s'' @
     ''H'' @ ''H'' @ ''932x''"

definition fileHeaderSizeInBytes :: "error + nat" where
  "fileHeaderSizeInBytes = calcsize fileHeaderFormat"

definition frameHeaderFormat :: string where
  "frameHeaderFormat = ''='' @ ''B'' @ ''B'' @ ''B'' @ ''B'' @ ''I'' @ ''I'' @ ''I'' @
     ''d'' @ ''H'' @ ''H'' @ ''I'' @ ''Q'' @ ''24x''"

definition frameHeaderSizeInBytes :: "error + nat" where
  "frameHeaderSizeInBytes = calcsize frameHeaderFormat"

definition getFrameSizeInBytes :: "int \<Rightarrow> int \<Rightarrow> error + nat" where
  "getFrameSizeInBytes frameWidth frameHeight =
    (case str_int (frameWidth * frameHeight) of
       Inl err \<Rightarrow> Inl err
     | Inr count \<Rightarrow> calcsize (count @ ''h''))"

subsection \<open>\<open>struct.unpack\<close>\<close>

text \<open>
  Unpacked values. A float is kept as the bytes of its IEEE encoding: no claim depends
  on its numeric value.
\<close>

datatype pyval = PyInt int | PyBytes "byte list" | PyFloatBits "byte list" | PyBool bool

definition le_nat :: "byte list \<Rightarrow> nat" where
  "le_nat bs = foldr (\<lambda>b acc. unat b + 256 * acc) bs 0"

definition decode_item :: "char \<Rightarrow> byte list \<Rightarrow> pyval" where
  "decode_item c bs =
    (if c \<in> set ''BHILQNP'' then PyInt (int (le_nat bs))
     else if c \<in> set ''bhilqn'' then
       PyInt (if 2 ^ (8 * length bs - 1) \<le> le_nat bs
              then int (le_nat bs) - 2 ^ (8 * length bs) else int (le_nat bs))
     else if c = CHR ''?'' then PyBool (le_nat bs \<noteq> 0)
     else if c \<in> set ''efd'' then PyFloatBits bs
     else PyBytes bs)"

text \<open>
  The values one item yields from the bytes at its offset: none for pad bytes, one
  byte string for \<open>s\<close> and \<open>p\<close> (whose count is a length), else one value per repeat.
\<close>

definition item_values :: "char \<Rightarrow> nat \<Rightarrow> nat \<Rightarrow> byte list \<Rightarrow> pyval list" where
  "item_values c itemsize n bs =
    (if c = CHR ''x'' then []
     else if c = CHR ''s'' then [PyBytes (take n bs)]
     else if c = CHR ''p'' then
       [PyBytes (take (min (unat (hd bs)) (n - 1)) (take (n - 1) (drop 1 bs)))]
     else map (\<lambda>i. decode_item c (take itemsize (drop (i * itemsize) bs))) [0..<n])"

fun unpack_items :: "bool \<Rightarrow> string \<Rightarrow> nat option \<Rightarrow> byte list \<Rightarrow> nat \<Rightarrow> error + pyval list" where
  "unpack_items native [] cnt buf off =
     (case cnt of None \<Rightarrow> Inr [] | Some n \<Rightarrow> Inl StructError)"
| "unpack_items native (c # cs) cnt buf off =
     (if cnt = None \<and> is_space c then unpack_items native cs None buf off
      else if is_digit c then
        unpack_items native cs
          (Some ((case cnt of None \<Rightarrow> 0 | Some n \<Rightarrow> 10 * n) + digit_val c)) buf off
      else
        (case (if native then native_entry c else standard_entry c) of
           None \<Rightarrow> Inl StructError
         | Some e \<Rightarrow>
             (case unpack_items native cs None buf
                     (align_to off (snd e) + (case cnt of None \<Rightarrow> 1 | Some n \<Rightarrow> n) * fst e) of
                Inl err \<Rightarrow> Inl err
              | Inr vals \<Rightarrow>
                  Inr (item_values c (fst e) (case cnt of None \<Rightarrow> 1 | Some n \<Rightarrow> n)
                         (drop (align_to off (snd e)) buf) @ vals))))"

text \<open>\<open>Struct.unpack\<close> demands a buffer of exactly \<open>calcsize\<close> bytes.\<close>

definition unpack :: "string \<Rightarrow> byte list \<Rightarrow> error + pyval list" where
  "unpack fmt buf =
    (case calcsize fmt of
       Inl err \<Rightarrow> Inl err
     | Inr n \<Rightarrow>
         if length buf \<noteq> n then Inl StructError
         else
           (case fmt of
              [] \<Rightarrow> Inr []
            | c # cs \<Rightarrow>
                if c = CHR ''@'' then unpack_items True cs None buf 0
                else if c \<in> set ''=<>!'' then unpack_items False cs None buf 0
                else unpack_items True fmt None buf 0))"

subsection \<open>Files\<close>

text \<open>
  An open binary file: its bytes and the position of the handle. \<open>reads\<close> is a ghost
  log of every read request, as (position, number of bytes asked for); it lets a
  theorem say which bytes a function has touched.
\<close>

record file_handle =
  content :: "byte list"
  pos :: nat
  reads :: "(nat \<times> nat) list"

definition fopen :: "byte list \<Rightarrow> file_handle" where
  "fopen bs = \<lparr>content = bs, pos = 0, reads = []\<rparr>"

text \<open>\<open>fh.read(n)\<close>: the bytes returned (fewer than \<open>n\<close> at the end of the file) \<dots>\<close>

definition read_bytes :: "nat \<Rightarrow> file_handle \<Rightarrow> byte list" where
  "read_bytes n fh = take n (drop (pos fh) (content fh))"

text \<open>\<dots> and the handle afterwards.\<close>

definition after_read :: "nat \<Rightarrow> file_handle \<Rightarrow> file_handle" where
  "after_read n fh =
     fh\<lparr>pos := pos fh + length (read_bytes n fh), reads := reads fh @ [(pos fh, n)]\<rparr>"

text \<open>
  Seeking. Python converts the argument to an \<open>off_t\<close> and raises \<open>ValueError\<close> when it
  does not fit; the system then refuses, with \<open>OSError\<close>, a position that is negative or
  beyond the largest offset of the file system. That largest offset is the parameter
  \<open>lim\<close> (\<open>2 ^ 44 - 4096\<close> on ext4 with blocks of 4096 bytes, for one). No file is longer
  than it, so a position inside the file is always taken; a position beyond the end
  of the file and within the limit is taken too.
\<close>

definition OFF_T_MAX :: nat where
  "OFF_T_MAX = 2 ^ 63 - 1"

definition largest_offset :: "nat \<Rightarrow> file_handle \<Rightarrow> nat" where
  "largest_offset lim fh = min OFF_T_MAX (max lim (length (content fh)))"

text \<open>\<open>fh.seek(offset)\<close>, from the beginning of the file.\<close>

definition seek_set :: "nat \<Rightarrow> int \<Rightarrow> file_handle \<Rightarrow> error + file_handle" where
  "seek_set lim offset fh =
    (if offset < - int OFF_T_MAX - 1 \<or> int OFF_T_MAX < offset then Inl ValueError
     else if offset < 0 \<or> int (largest_offset lim fh) < offset then Inl OSError
     else Inr (fh\<lparr>pos := nat offset\<rparr>))"

text \<open>\<open>fh.seek(n, 1)\<close> with \<open>n \<ge> 0\<close>, from the current position.\<close>

definition seek_cur :: "nat \<Rightarrow> nat \<Rightarrow> file_handle \<Rightarrow> error + file_handle" where
  "seek_cur lim n fh =
    (if OFF_T_MAX < n then Inl ValueError
     else if largest_offset lim fh < pos fh + n then Inl OSError
     else Inr (fh\<lparr>pos := pos fh + n\<rparr>))"

subsection \<open>True division and \<open>float.is_integer\<close>\<close>

text \<open>
  \<open>a / b\<close> on two Python integers is the IEEE double nearest to the quotient (ties to
  even). A finite double is kept as mantissa and exponent: \<open>Float53 m e\<close> stands for
  \<open>m * 2 ^ e\<close>. For a quotient below \<open>2 ^ 53\<close> the exponent is \<open>- k\<close>, with \<open>k\<close> the
  least shift that brings the mantissa up to 53 bits, and at most 1074 (where the
  doubles become subnormal); above, the exponent is the least \<open>e\<close> that brings it down
  to 53 bits. A quotient that rounds to \<open>2 ^ 1024\<close> raises \<open>OverflowError\<close>.
\<close>

datatype pyfloat = Float53 (mant: nat) (expo: int)

definition round_half_even :: "nat \<Rightarrow> nat \<Rightarrow> nat" where
  "round_half_even n d =
    (if 2 * (n mod d) < d then n div d
     else if d < 2 * (n mod d) then n div d + 1
     else if even (n div d) then n div d else n div d + 1)"

function scale_up :: "nat \<Rightarrow> nat \<Rightarrow> nat \<Rightarrow> nat" where
  "scale_up a b k =
     (if a = 0 \<or> 2 ^ 52 * b \<le> a * 2 ^ k then k else scale_up a b (Suc k))"
  by pat_completeness auto
termination
proof (relation "measure (\<lambda>(a, b, k). 2 ^ 52 * b - a * 2 ^ k)", goal_cases)
  case 1
  show ?case by simp
next
  case (2 a b k)
  then have "0 < a * 2 ^ k" and "a * 2 ^ k < 2 ^ 52 * b"
    by simp_all
  then have "2 ^ 52 * b - 2 * (a * 2 ^ k) < 2 ^ 52 * b - a * 2 ^ k"
    by linarith
  then show ?case
    by (simp add: mult.assoc mult.left_commute)
qed

declare scale_up.simps [simp del]

function scale_down :: "nat \<Rightarrow> nat \<Rightarrow> nat \<Rightarrow> nat" where
  "scale_down a b e =
     (if b = 0 \<or> a < 2 ^ 53 * b * 2 ^ e then e else scale_down a b (Suc e))"
  by pat_completeness auto
termination
proof (relation "measure (\<lambda>(a, b, e). Suc a - 2 ^ 53 * b * 2 ^ e)", goal_cases)
  case 1
  show ?case by simp
next
  case (2 a b e)
  then have "0 < 2 ^ 53 * b * 2 ^ e" and "2 ^ 53 * b * 2 ^ e \<le> a"
    by simp_all
  then have "Suc a - 2 * (2 ^ 53 * b * 2 ^ e) < Suc a - 2 ^ 53 * b * 2 ^ e"
    by linarith
  then show ?case
    by (simp add: mult.assoc mult.left_commute)
qed

declare scale_down.simps [simp del]

definition py_truediv :: "nat \<Rightarrow> nat \<Rightarrow> error + pyfloat" where
  "py_truediv a b =
    (if b = 0 then Inl ZeroDivisionError
     else if a = 0 then Inr (Float53 0 0)
     else if (2 ^ 1024 - 2 ^ 970) * b \<le> a then Inl OverflowError
     else if 2 ^ 53 * b \<le> a then
       Inr (Float53 (round_half_even a (b * 2 ^ scale_down a b 0)) (int (scale_down a b 0)))
     else
       Inr (Float53 (round_half_even (a * 2 ^ min 1074 (scale_up a b 0)) b)
              (- int (min 1074 (scale_up a b 0)))))"

definition is_integer :: "pyfloat \<Rightarrow> bool" where
  "is_integer x = (0 \<le> expo x \<or> 2 ^ nat (- expo x) dvd mant x)"

text \<open>\<open>int(x)\<close> truncates.\<close>

definition float_to_int :: "pyfloat \<Rightarrow> int" where
  "float_to_int x =
    (if 0 \<le> expo x then int (mant x * 2 ^ nat (expo x))
     else int (mant x div 2 ^ nat (- expo x)))"

subsection \<open>\<open>Frms6Reader.getFileHeader\<close> and \<open>Frms6Reader.getDataShape\<close>\<close>

text \<open>A dictionary with string keys, in insertion order.\<close>

type_synonym 'v pydict = "(string \<times> 'v) list"

definition dict_get :: "'v pydict \<Rightarrow> string \<Rightarrow> error + 'v" where
  "dict_get d k = (case map_of d k of None \<Rightarrow> Inl KeyError | Some v \<Rightarrow> Inr v)"

text \<open>\<open>bytes.rstrip(b'\x00')\<close>, on the one item that is a byte string.\<close>

definition rstrip_nul :: "pyval \<Rightarrow> pyval" where
  "rstrip_nul v =
    (case v of PyBytes bs \<Rightarrow> PyBytes (rev (dropWhile (\<lambda>b. b = 0) (rev bs))) | _ \<Rightarrow> v)"

text \<open>
  \<open>int(v)\<close>. It is applied to the width and height items only, which are unpacked
  with code \<open>H\<close> and so are integers.
\<close>

definition py_int :: "pyval \<Rightarrow> error + int" where
  "py_int v =
    (case v of PyInt i \<Rightarrow> Inr i | PyBool b \<Rightarrow> Inr (if b then 1 else 0) | _ \<Rightarrow> Inl TypeError)"

definition getFileHeader :: "byte list \<Rightarrow> error + pyval pydict" where
  "getFileHeader file =
    (case fileHeaderSizeInBytes of
       Inl err \<Rightarrow> Inl err
     | Inr hsize \<Rightarrow>
        (case unpack fileHeaderFormat (read_bytes hsize (fopen file)) of
           Inl err \<Rightarrow> Inl err
         | Inr fileHeaderItems \<Rightarrow>
             Inr [(''fileHeaderSize'', fileHeaderItems ! 0),
                  (''frameHeaderSize'', fileHeaderItems ! 1),
                  (''nCCDs'', fileHeaderItems ! 2),
                  (''maxWidth'', fileHeaderItems ! 3),
                  (''maxHeight'', fileHeaderItems ! 4),
                  (''version'', fileHeaderItems ! 5),
                  (''dataSetId'', rstrip_nul (fileHeaderItems ! 6)),
                  (''width'', fileHeaderItems ! 7),
                  (''height'', fileHeaderItems ! 8)]))"

text \<open>
  The file size minus the header size is not negative where it is computed: the
  header has been read from the file by then.
\<close>

definition getDataShape :: "byte list \<Rightarrow> error + (int \<times> int \<times> int)" where
  "getDataShape file =
    (case getFileHeader file of Inl err \<Rightarrow> Inl err | Inr fileHeader \<Rightarrow>
    (case dict_get fileHeader ''width'' of Inl err \<Rightarrow> Inl err | Inr wv \<Rightarrow>
    (case py_int wv of Inl err \<Rightarrow> Inl err | Inr frameWidth \<Rightarrow>
    (case dict_get fileHeader ''height'' of Inl err \<Rightarrow> Inl err | Inr hv \<Rightarrow>
    (case py_int hv of Inl err \<Rightarrow> Inl err | Inr frameHeight \<Rightarrow>
    (case frameHeaderSizeInBytes of Inl err \<Rightarrow> Inl err | Inr fhsize \<Rightarrow>
    (case getFrameSizeInBytes frameWidth frameHeight of Inl err \<Rightarrow> Inl err | Inr fsize \<Rightarrow>
    (case fileHeaderSizeInBytes of Inl err \<Rightarrow> Inl err | Inr hsize \<Rightarrow>
    (case py_truediv (length file - hsize) (fhsize + fsize) of
       Inl err \<Rightarrow> Inl err
     | Inr numberOfFrames \<Rightarrow>
         if \<not> is_integer numberOfFrames then Inl Warning
         else Inr (frameWidth, frameHeight, float_to_int numberOfFrames))))))))))"

subsection \<open>\<open>Frms6Reader.getFrameHeaders\<close>\<close>

text \<open>The nine lists the scan fills, and the file handle it moves.\<close>

record header_state =
  frameStart :: "pyval list"
  frameInfo :: "pyval list"
  frameId :: "pyval list"
  frameHeight :: "pyval list"
  frameTvSec :: "pyval list"
  frameTvUsec :: "pyval list"
  frameIndex :: "pyval list"
  frameTemp :: "pyval list"
  frameMaxHeight :: "pyval list"
  header_handle :: file_handle




subsection \<open>Arrays\<close>

text \<open>
  A three-dimensional array of unsigned 16-bit values: its shape, and its cells as
  nested lists, first axis outermost. Two-dimensional arrays are lists of rows.
\<close>

record ndarray3 =
  dim_x :: nat
  dim_y :: nat
  dim_z :: nat
  cells :: "uint16 list list list"

text \<open>
  \<open>np.zeros((a, b, c), np.uint16)\<close>. numpy refuses, with \<open>ValueError\<close>, a negative
  dimension, and a shape whose size in bytes, with the dimensions that are zero left
  out of the product, is above \<open>NPY_MAX_INTP\<close>; so it refuses a dimension that is itself
  above \<open>NPY_MAX_INTP\<close>.
\<close>

definition NPY_MAX_INTP :: int where
  "NPY_MAX_INTP = 2 ^ 63 - 1"

definition np_zeros :: "int \<Rightarrow> int \<Rightarrow> int \<Rightarrow> error + ndarray3" where
  "np_zeros a b c =
    (if a < 0 \<or> b < 0 \<or> c < 0 then Inl ValueError
     else if NPY_MAX_INTP < 2 * (max 1 a * max 1 b * max 1 c) then Inl ValueError
     else Inr \<lparr>dim_x = nat a, dim_y = nat b, dim_z = nat c,
               cells = replicate (nat a) (replicate (nat b) (replicate (nat c) 0))\<rparr>)"

text \<open>\<open>np.frombuffer(buf, np.uint16)\<close>: the buffer must hold whole elements.\<close>

definition np_frombuffer_uint16 :: "byte list \<Rightarrow> error + uint16 list" where
  "np_frombuffer_uint16 buf =
    (if odd (length buf) then Inl ValueError
     else Inr (map (\<lambda>i. word_of_nat (le_nat (take 2 (drop (2 * i) buf))))
                 [0..<length buf div 2]))"

text \<open>\<open>a.reshape((rows, cols))\<close> in C order: the sizes must agree.\<close>

definition np_reshape2 :: "uint16 list \<Rightarrow> nat \<Rightarrow> nat \<Rightarrow> error + uint16 list list" where
  "np_reshape2 flat rows cols =
    (if length flat \<noteq> rows * cols then Inl ValueError
     else Inr (map (\<lambda>r. map (\<lambda>c. flat ! (r * cols + c)) [0..<cols]) [0..<rows]))"

text \<open>\<open>np.transpose\<close> of a \<open>rows\<close> by \<open>cols\<close> array.\<close>

definition np_transpose2 :: "nat \<Rightarrow> nat \<Rightarrow> uint16 list list \<Rightarrow> uint16 list list" where
  "np_transpose2 rows cols m = map (\<lambda>c. map (\<lambda>r. m ! r ! c) [0..<rows]) [0..<cols]"

text \<open>\<open>chunk[:, :, frameIdx] = t\<close>, for \<open>t\<close> of the shape of the first two axes.\<close>

definition set_frame :: "ndarray3 \<Rightarrow> nat \<Rightarrow> uint16 list list \<Rightarrow> ndarray3" where
  "set_frame chunk frameIdx t =
     chunk\<lparr>cells :=
       map (\<lambda>x. map (\<lambda>y. (cells chunk ! x ! y)[frameIdx := t ! x ! y]) [0..<dim_y chunk])
         [0..<dim_x chunk]\<rparr>"

text \<open>\<open>a[:, :, lo:hi]\<close> for \<open>0 \<le> lo \<le> hi \<le> dim_z a\<close>.\<close>

definition slice_z :: "nat \<Rightarrow> nat \<Rightarrow> ndarray3 \<Rightarrow> ndarray3" where
  "slice_z lo hi a =
     a\<lparr>dim_z := hi - lo, cells := map (map (\<lambda>zs. take (hi - lo) (drop lo zs))) (cells a)\<rparr>"

text \<open>\<open>a[:, :, k]\<close>.\<close>

definition frame_at :: "ndarray3 \<Rightarrow> nat \<Rightarrow> uint16 list list" where
  "frame_at a k = map (map (\<lambda>zs. zs ! k)) (cells a)"

subsection \<open>\<open>Frms6Reader.readData\<close>\<close>

record read_state =
  chunk :: ndarray3
  handle :: file_handle

text \<open>
  The loop over \<open>range(numberOfFrames)\<close>: skip the frame header, read the frame,
  reshape it to (\<open>pixelsY\<close>, \<open>pixelsX\<close>), transpose it and store it at \<open>frameIdx\<close>.
\<close>

fun read_frames :: "nat \<Rightarrow> nat \<Rightarrow> nat \<Rightarrow> nat \<Rightarrow> nat \<Rightarrow> nat list \<Rightarrow> read_state \<Rightarrow> error + read_state" where
  "read_frames lim fhsize fsize pixelsX pixelsY [] st = Inr st"
| "read_frames lim fhsize fsize pixelsX pixelsY (frameIdx # idxs) st =
     (case seek_cur lim fhsize (handle st) of
        Inl err \<Rightarrow> Inl err
      | Inr fh \<Rightarrow>
     (case np_frombuffer_uint16 (read_bytes fsize fh) of
        Inl err \<Rightarrow> Inl err
      | Inr currentFrame \<Rightarrow>
         (case np_reshape2 currentFrame pixelsY pixelsX of
            Inl err \<Rightarrow> Inl err
          | Inr m \<Rightarrow>
              read_frames lim fhsize fsize pixelsX pixelsY idxs
                \<lparr>chunk = set_frame (chunk st) frameIdx (np_transpose2 pixelsY pixelsX m),
                 handle = after_read fsize fh\<rparr>)))"

text \<open>
  The method up to the end of its \<open>with\<close> block; \<open>image_range\<close> is the pair
  (\<open>startIdx\<close>, \<open>endIdx\<close>), and \<open>pixelsX\<close>, \<open>pixelsY\<close> are the keyword arguments \<open>pixels_x\<close>
  and \<open>pixels_y\<close>, given as integers.
\<close>

definition Frms6Reader_readData_run :: "nat \<Rightarrow> byte list \<Rightarrow> int \<times> int \<Rightarrow> int \<Rightarrow> int \<Rightarrow> error + read_state" where
  "Frms6Reader_readData_run lim file image_range pixelsX pixelsY =
    (case fileHeaderSizeInBytes of Inl err \<Rightarrow> Inl err | Inr hsize \<Rightarrow>
    (case frameHeaderSizeInBytes of Inl err \<Rightarrow> Inl err | Inr fhsize \<Rightarrow>
    (case getFrameSizeInBytes pixelsX pixelsY of Inl err \<Rightarrow> Inl err | Inr fsize \<Rightarrow>
    (case np_zeros pixelsX pixelsY (snd image_range - fst image_range) of
       Inl err \<Rightarrow> Inl err
     | Inr chunk0 \<Rightarrow>
    (case seek_set lim (int hsize + fst image_range * (int fhsize + int fsize)) (fopen file) of
       Inl err \<Rightarrow> Inl err
     | Inr fh \<Rightarrow>
         read_frames lim fhsize fsize (nat pixelsX) (nat pixelsY)
           [0..<nat (snd image_range - fst image_range)]
           \<lparr>chunk = chunk0, handle = fh\<rparr>)))))"

definition Frms6Reader_readData :: "nat \<Rightarrow> byte list \<Rightarrow> int \<times> int \<Rightarrow> int \<Rightarrow> int \<Rightarrow> error + ndarray3" where
  "Frms6Reader_readData lim file image_range pixelsX pixelsY =
    (case Frms6Reader_readData_run lim file image_range pixelsX pixelsY of
       Inl err \<Rightarrow> Inl err
     | Inr st \<Rightarrow> Inr (chunk st))"

subsection \<open>Opening a container: \<open>str.find\<close> and \<open>str.replace\<close>\<close>

text \<open>\<open>s.find(sub)\<close>: the index of the first occurrence of \<open>sub\<close> in \<open>s\<close>, or \<open>-1\<close>.\<close>

fun find_from :: "'a list \<Rightarrow> 'a list \<Rightarrow> int \<Rightarrow> int" where
  "find_from sub [] i = (if sub = [] then i else - 1)"
| "find_from sub (c # cs) i = (if prefix sub (c # cs) then i else find_from sub cs (i + 1))"

definition py_find :: "'a list \<Rightarrow> 'a list \<Rightarrow> int" where
  "py_find s sub = find_from sub s 0"

text \<open>
  \<open>s.replace(old, new)\<close>: the occurrences of \<open>old\<close> are taken from the left and do not
  overlap; an empty \<open>old\<close> matches before every character and at the end.
\<close>

function py_replace :: "'a list \<Rightarrow> 'a list \<Rightarrow> 'a list \<Rightarrow> 'a list" where
  "py_replace old new s =
     (if old = [] then new @ concat (map (\<lambda>c. c # new) s)
      else if s = [] then []
      else if prefix old s then new @ py_replace old new (drop (length old) s)
      else hd s # py_replace old new (tl s))"
  by pat_completeness auto
termination
  by (relation "measure (\<lambda>(old, new, s). length s)") auto

declare py_replace.simps [simp del]

text \<open>
  What the module hands to \<open>h5py.File\<close>: a single file, or a family of files with the
  pattern of their names and the size of a member. The lines that decide it are the
  same in \<open>readData\<close> and in \<open>getDataSize\<close>.
\<close>

datatype h5_open = H5Single string | H5Family string nat

definition open_container :: "string \<Rightarrow> h5_open" where
  "open_container filename =
    (if py_find filename ''00000'' \<noteq> - 1
     then H5Family (py_replace ''00000'' ''%05d'' filename) (20 * 1024 ^ 3)
     else H5Single filename)"

subsection \<open>The container readers: \<open>getDataSize\<close> and \<open>readData\<close>\<close>

text \<open>
  The container library and numpy are not part of the module. A dataset or array is
  kept as its element type and its shape; the values of its elements are not
  modelled. The library is a parameter \<open>h5\<close>: what opening gives, a map from the paths
  inside the container to its datasets, or an error.
\<close>

datatype dtype = Float64 | Stored string

record ndarray =
  arr_dtype :: dtype
  arr_shape :: "nat list"

type_synonym h5lib = "h5_open \<Rightarrow> error + (string \<Rightarrow> ndarray option)"

definition getDataSize :: "h5lib \<Rightarrow> string \<Rightarrow> string \<Rightarrow> error + nat list" where
  "getDataSize h5 filename path =
    (case h5 (open_container filename) of
       Inl err \<Rightarrow> Inl err
     | Inr f \<Rightarrow> (case f path of None \<Rightarrow> Inl KeyError | Some ds \<Rightarrow> Inr (arr_shape ds)))"

text \<open>A slice \<open>lo:hi\<close> of an axis of length \<open>n\<close>: negative bounds count from the end.\<close>

datatype slice = Full | Range int int

definition clip_index :: "nat \<Rightarrow> int \<Rightarrow> int" where
  "clip_index n i = (if i < 0 then max 0 (i + int n) else min i (int n))"

definition slice_len :: "nat \<Rightarrow> slice \<Rightarrow> nat" where
  "slice_len n s =
    (case s of Full \<Rightarrow> n | Range lo hi \<Rightarrow> nat (clip_index n hi - clip_index n lo))"

text \<open>
  \<open>a[s0, s1, s2]\<close>: three slices need three axes. With fewer, a numpy array raises
  \<open>IndexError\<close> and a dataset of the container library \<open>ValueError\<close>; \<open>too_many\<close> is the
  one that applies.
\<close>

definition index3 :: "error \<Rightarrow> ndarray \<Rightarrow> slice \<Rightarrow> slice \<Rightarrow> slice \<Rightarrow> error + ndarray" where
  "index3 too_many a s0 s1 s2 =
    (case arr_shape a of
       n0 # n1 # n2 # ns \<Rightarrow>
         Inr (a\<lparr>arr_shape := slice_len n0 s0 # slice_len n1 s1 # slice_len n2 s2 # ns\<rparr>)
     | _ \<Rightarrow> Inl too_many)"

text \<open>\<open>np.squeeze\<close> drops the axes of length one.\<close>

definition np_squeeze :: "ndarray \<Rightarrow> ndarray" where
  "np_squeeze a = a\<lparr>arr_shape := filter (\<lambda>n. n \<noteq> 1) (arr_shape a)\<rparr>"

text \<open>\<open>np.rollaxis(a, axis)\<close> moves an axis to the front.\<close>

definition np_rollaxis :: "ndarray \<Rightarrow> nat \<Rightarrow> error + ndarray" where
  "np_rollaxis a axis =
    (if length (arr_shape a) \<le> axis then Inl IndexError
     else Inr (a\<lparr>arr_shape :=
       arr_shape a ! axis # take axis (arr_shape a) @ drop (Suc axis) (arr_shape a)\<rparr>))"

text \<open>
  \<open>np.asarray(d, np.float64)\<close>. Which stored values numpy can turn into floats is the
  parameter \<open>convertible\<close>; those it cannot raise \<open>ValueError\<close>.
\<close>

definition np_asarray_float64 :: "(ndarray \<Rightarrow> bool) \<Rightarrow> ndarray \<Rightarrow> error + ndarray" where
  "np_asarray_float64 convertible d =
    (if convertible d then Inr (d\<lparr>arr_dtype := Float64\<rparr>) else Inl ValueError)"

text \<open>
  The keyword arguments of \<open>readData\<close> that it uses: \<open>image_range\<close>, \<open>x_range\<close>, \<open>y_range\<close>
  (\<open>None\<close> when absent) and \<open>simulated\<close>.
\<close>

record read_options =
  image_range :: "(int \<times> int) option"
  x_range :: "(int \<times> int) option"
  y_range :: "(int \<times> int) option"
  simulated :: bool

text \<open>The dataset, or the slice of it along the frame axis, which is an array.\<close>

definition select_images :: "ndarray \<Rightarrow> read_options \<Rightarrow> error + ndarray" where
  "select_images ds opts =
    (case image_range opts of
       None \<Rightarrow> Inr ds
     | Some imageRange \<Rightarrow>
         if \<not> simulated opts
         then index3 ValueError ds Full Full (Range (fst imageRange) (snd imageRange))
         else index3 ValueError ds (Range (fst imageRange) (snd imageRange)) Full Full)"

text \<open>The reordering of the axes of simulated data.\<close>

definition reorder_simulated :: "ndarray \<Rightarrow> error + ndarray" where
  "reorder_simulated din =
    (case np_rollaxis (np_squeeze din) 2 of Inl err \<Rightarrow> Inl err | Inr din1 \<Rightarrow>
    (case np_rollaxis din1 2 of Inl err \<Rightarrow> Inl err | Inr din2 \<Rightarrow>
       np_rollaxis din2 1))"

text \<open>
  The slice along the two pixel axes; a range given alone subscripts \<open>None\<close>. What is
  sliced is still the dataset when no range of images was given and the data are not
  simulated, and an array otherwise.
\<close>

definition subscript_error :: "read_options \<Rightarrow> error" where
  "subscript_error opts =
    (if image_range opts = None \<and> \<not> simulated opts then ValueError else IndexError)"

definition select_pixels :: "ndarray \<Rightarrow> read_options \<Rightarrow> error + ndarray" where
  "select_pixels din opts =
    (if x_range opts = None \<and> y_range opts = None
     then index3 (subscript_error opts) din Full Full Full
     else
       (case x_range opts of None \<Rightarrow> Inl TypeError | Some pixelXRange \<Rightarrow>
       (case y_range opts of None \<Rightarrow> Inl TypeError | Some pixelYRange \<Rightarrow>
          index3 (subscript_error opts) din (Range (fst pixelXRange) (snd pixelXRange))
            (Range (fst pixelYRange) (snd pixelYRange)) Full)))"

definition readData :: "h5lib \<Rightarrow> (ndarray \<Rightarrow> bool) \<Rightarrow> string \<Rightarrow> string \<Rightarrow> read_options \<Rightarrow> error + ndarray" where
  "readData h5 convertible filename path opts =
    (case h5 (open_container filename) of Inl err \<Rightarrow> Inl err | Inr f \<Rightarrow>
    (case f path of None \<Rightarrow> Inl KeyError | Some ds \<Rightarrow>
    (case select_images ds opts of Inl err \<Rightarrow> Inl err | Inr din0 \<Rightarrow>
    (case (if simulated opts then reorder_simulated din0 else Inr din0) of
       Inl err \<Rightarrow> Inl err
     | Inr din \<Rightarrow>
    (case select_pixels din opts of Inl err \<Rightarrow> Inl err | Inr d \<Rightarrow>
       np_asarray_float64 convertible d)))))"

text \<open>\<open>sep.join(pieces)\<close>, to say what a replacement does.\<close>

fun join :: "'a list \<Rightarrow> 'a list list \<Rightarrow> 'a list" where
  "join sep [] = []"
| "join sep [p] = p"
| "join sep (p # q # ps) = p @ sep @ join sep (q # ps)"

subsection \<open>The file layout of the specification\<close>

text \<open>
  The width and height a file header declares, and the layout invariant of the
  specification: a valid file is its 1024-byte header followed by \<open>n\<close> records, each a
  frame header and \<open>w * h\<close> 16-bit samples.
\<close>

definition frms6_header :: "byte list \<Rightarrow> int \<Rightarrow> int \<Rightarrow> bool" where
  "frms6_header file w h =
    (case getFileHeader file of
       Inl err \<Rightarrow> False
     | Inr hdr \<Rightarrow>
         dict_get hdr ''width'' = Inr (PyInt w) \<and> dict_get hdr ''height'' = Inr (PyInt h))"

definition frms6_valid :: "byte list \<Rightarrow> int \<Rightarrow> int \<Rightarrow> nat \<Rightarrow> bool" where
  "frms6_valid file w h n =
    (frms6_header file w h \<and> length file = 1024 + n * (64 + nat (w * h) * 2))"

text \<open>
  In that layout, the 16-bit sample at a byte offset, and the payload of frame \<open>i\<close> for
  frames of \<open>pX * pY\<close> samples.
\<close>

definition sample_at :: "byte list \<Rightarrow> nat \<Rightarrow> uint16" where
  "sample_at file off = word_of_nat (le_nat (take 2 (drop off file)))"

definition frame_bytes :: "byte list \<Rightarrow> nat \<Rightarrow> nat \<Rightarrow> nat \<Rightarrow> byte list" where
  "frame_bytes file pX pY i =
     take (pX * pY * 2) (drop (1024 + i * (64 + pX * pY * 2) + 64) file)"

text \<open>
  The frame whose payload starts at byte \<open>q\<close>, in (x, y) order: the sample of column
  \<open>x\<close> and row \<open>y\<close> is number \<open>y * pX + x\<close> of the payload.
\<close>

definition frame_of :: "byte list \<Rightarrow> nat \<Rightarrow> nat \<Rightarrow> nat \<Rightarrow> uint16 list list" where
  "frame_of bs q pX pY =
     map (\<lambda>x. map (\<lambda>y. sample_at bs (q + 2 * (y * pX + x))) [0..<pY]) [0..<pX]"



text \<open>
  The example of the specification: a header declaring width 2, height 2 and version
  1, and two frames with the samples 1, 2, 3, 4 and 5, 6, 7, 8.
\<close>

definition example_file :: "byte list" where
  "example_file =
     [0, 4, 64, 0, 1, 2, 2, 1] @ replicate 80 0 @ [2, 0, 2, 0] @ replicate 932 0 @
     replicate 64 0 @ [1, 0, 2, 0, 3, 0, 4, 0] @
     replicate 64 0 @ [5, 0, 6, 0, 7, 0, 8, 0]"

section \<open>Properties\<close>

subsection \<open>Sizes\<close>

lemma digit_cases:
  "d < (10::nat) \<Longrightarrow>
     d = 0 \<or> d = 1 \<or> d = 2 \<or> d = 3 \<or> d = 4 \<or> d = 5 \<or> d = 6 \<or> d = 7 \<or> d = 8 \<or> d = 9"
  by arith

lemma digit_val_digit_char: "d < 10 \<Longrightarrow> digit_val (digit_char d) = d"
  by (drule digit_cases) (elim disjE; simp add: digit_val_def digit_char_def)

lemma is_digit_digit_char: "d < 10 \<Longrightarrow> is_digit (digit_char d)"
  by (drule digit_cases) (elim disjE; simp add: is_digit_def digit_char_def)

lemma not_is_space_digit_char: "d < 10 \<Longrightarrow> \<not> is_space (digit_char d)"
  by (drule digit_cases) (elim disjE; simp add: is_space_def digit_char_def)

lemma digit_char_not_order: "d < 10 \<Longrightarrow> digit_char d \<notin> set ''@=<>!''"
  by (drule digit_cases) (elim disjE; simp add: digit_char_def)

lemma str_nat_small: "n < 10 \<Longrightarrow> str_nat n = [digit_char n]"
  by (subst str_nat.simps) simp

lemma str_nat_big: "\<not> n < 10 \<Longrightarrow> str_nat n = str_nat (n div 10) @ [digit_char (n mod 10)]"
  by (subst str_nat.simps) simp

lemma PY_SSIZE_T_MAX_eq: "PY_SSIZE_T_MAX = 9223372036854775807"
  by (simp add: PY_SSIZE_T_MAX_def)

text \<open>
  Scanning the decimal digits of \<open>n\<close> leaves the scanner with the count \<open>n\<close>, when \<open>n\<close>
  is not above the ceiling \<dots>
\<close>

lemma calc_items_str_nat:
  "n \<le> PY_SSIZE_T_MAX \<Longrightarrow>
     calc_items nv (str_nat n @ rest) None sz = calc_items nv rest (Some n) sz"
proof (induction n arbitrary: rest rule: str_nat.induct)
  case (1 n)
  show ?case
  proof (cases "n < 10")
    case True
    then show ?thesis
      using "1.prems"
      by (simp add: str_nat_small digit_val_digit_char is_digit_digit_char
          not_is_space_digit_char)
  next
    case False
    have le: "n div 10 \<le> PY_SSIZE_T_MAX"
      using "1.prems" by (rule order_trans [OF div_le_dividend])
    have "calc_items nv (str_nat n @ rest) None sz =
          calc_items nv (str_nat (n div 10) @ digit_char (n mod 10) # rest) None sz"
      using False by (simp add: str_nat_big)
    also have "\<dots> = calc_items nv (digit_char (n mod 10) # rest) (Some (n div 10)) sz"
      by (rule "1.IH" [OF False le])
    also have "\<dots> = calc_items nv rest (Some n) sz"
      using "1.prems" by (simp add: digit_val_digit_char is_digit_digit_char)
    finally show ?thesis .
  qed
qed

text \<open>\<dots> and stops with \<open>struct.error\<close> at the digit that takes the count above it.\<close>

lemma calc_items_str_nat_overflow:
  "PY_SSIZE_T_MAX < n \<Longrightarrow> calc_items nv (str_nat n @ rest) None sz = Inl StructError"
proof (induction n arbitrary: rest rule: str_nat.induct)
  case (1 n)
  have big: "\<not> n < 10"
    using "1.prems" by (simp add: PY_SSIZE_T_MAX_eq)
  have unfold: "str_nat n @ rest = str_nat (n div 10) @ digit_char (n mod 10) # rest"
    using big by (simp add: str_nat_big)
  show ?case
  proof (cases "PY_SSIZE_T_MAX < n div 10")
    case True
    show ?thesis
      unfolding unfold by (rule "1.IH" [OF big True])
  next
    case False
    then have "calc_items nv (str_nat (n div 10) @ digit_char (n mod 10) # rest) None sz =
        calc_items nv (digit_char (n mod 10) # rest) (Some (n div 10)) sz"
      by (intro calc_items_str_nat) simp
    also have "\<dots> = Inl StructError"
      using "1.prems" by (simp add: digit_val_digit_char is_digit_digit_char)
    finally show ?thesis
      unfolding unfold .
  qed
qed

lemma str_nat_hd: "\<exists>c cs. str_nat n = c # cs \<and> c \<notin> set ''@=<>!''"
proof (induction n rule: str_nat.induct)
  case (1 n)
  show ?case
  proof (cases "n < 10")
    case True
    then show ?thesis
      using digit_char_not_order [of n] by (simp add: str_nat_small)
  next
    case False
    from "1.IH" [OF False] obtain c cs where "str_nat (n div 10) = c # cs" "c \<notin> set ''@=<>!''"
      by blast
    then show ?thesis
      using False by (simp add: str_nat_big)
  qed
qed

lemma calcsize_count_h:
  "calcsize (str_nat n @ ''h'') =
     (if n * 2 \<le> PY_SSIZE_T_MAX then Inr (n * 2) else Inl StructError)"
proof -
  obtain c cs where cs: "str_nat n = c # cs" and c: "c \<notin> set ''@=<>!''"
    using str_nat_hd by blast
  have start: "calcsize (str_nat n @ ''h'') = calc_items True (str_nat n @ ''h'') None 0"
    using c by (simp add: calcsize_def cs)
  show ?thesis
  proof (cases "n \<le> PY_SSIZE_T_MAX")
    case True
    have "calc_items True (str_nat n @ ''h'') None 0 = calc_items True ''h'' (Some n) 0"
      using True by (rule calc_items_str_nat)
    also have "\<dots> = (if n * 2 \<le> PY_SSIZE_T_MAX then Inr (n * 2) else Inl StructError)"
      by (simp add: is_digit_def is_space_def native_entry_def align_to_def not_less)
    finally show ?thesis
      unfolding start .
  next
    case False
    then have "calc_items True (str_nat n @ ''h'') None 0 = Inl StructError"
      by (intro calc_items_str_nat_overflow) simp
    with False show ?thesis
      unfolding start by simp
  qed
qed

text \<open>The limit of \<open>str\<close> lies far above the ceiling of \<open>struct\<close>.\<close>

lemma str_limit: "(2::int) ^ 63 \<le> 10 ^ max_str_digits"
proof -
  have "(2::int) ^ 63 \<le> 10 ^ 19" by simp
  also have "(10::int) ^ 19 \<le> 10 ^ max_str_digits"
    by (rule power_increasing) (simp_all add: max_str_digits_def)
  finally show ?thesis .
qed

lemma str_int_nonneg:
  "0 \<le> i \<Longrightarrow> i < 10 ^ max_str_digits \<Longrightarrow> str_int i = Inr (str_nat (nat i))"
  by (simp add: str_int_def)

lemma getFrameSizeInBytes_eq:
  "0 \<le> w * h \<Longrightarrow> w * h < 2 ^ 62 \<Longrightarrow>
     getFrameSizeInBytes w h = Inr (nat (w * h) * 2)"
proof -
  assume nn: "0 \<le> w * h" and small: "w * h < 2 ^ 62"
  have "nat (w * h) < 2 ^ 62"
    using nn small by (simp add: nat_less_iff)
  then have le: "nat (w * h) * 2 \<le> PY_SSIZE_T_MAX"
    by (simp add: PY_SSIZE_T_MAX_eq)
  have "(2::int) ^ 62 \<le> 2 ^ 63" by simp
  with small str_limit have "w * h < 10 ^ max_str_digits" by linarith
  then have "str_int (w * h) = Inr (str_nat (nat (w * h)))"
    by (rule str_int_nonneg [OF nn])
  then show ?thesis
    using le by (simp add: getFrameSizeInBytes_def calcsize_count_h)
qed

lemma getFrameSizeInBytes_big:
  "2 ^ 62 \<le> w * h \<Longrightarrow> w * h < 10 ^ max_str_digits \<Longrightarrow>
     getFrameSizeInBytes w h = Inl StructError"
proof -
  assume big: "2 ^ 62 \<le> w * h" and str: "w * h < 10 ^ max_str_digits"
  have nn: "0 \<le> w * h"
    using big by simp
  from big have "2 ^ 62 \<le> nat (w * h)"
    by (simp add: le_nat_iff)
  then have "\<not> nat (w * h) * 2 \<le> PY_SSIZE_T_MAX"
    by (simp add: PY_SSIZE_T_MAX_eq)
  then show ?thesis
    by (simp add: getFrameSizeInBytes_def str_int_nonneg [OF nn str] calcsize_count_h)
qed

lemma getFrameSizeInBytes_neg:
  "w * h < 0 \<Longrightarrow> - (w * h) < 10 ^ max_str_digits \<Longrightarrow>
     getFrameSizeInBytes w h = Inl StructError"
  by (simp add: getFrameSizeInBytes_def str_int_def calcsize_def is_digit_def is_space_def
      native_entry_def)

lemma getFrameSizeInBytes_huge:
  "10 ^ max_str_digits \<le> abs (w * h) \<Longrightarrow> getFrameSizeInBytes w h = Inl ValueError"
  by (simp add: getFrameSizeInBytes_def str_int_def)

lemma fileHeaderSize: "fileHeaderSizeInBytes = Inr 1024"
  by (simp add: fileHeaderSizeInBytes_def fileHeaderFormat_def calcsize_def is_digit_def
      is_space_def digit_val_def standard_entry_def align_to_def PY_SSIZE_T_MAX_def)

lemma frameHeaderSize: "frameHeaderSizeInBytes = Inr 64"
  by (simp add: frameHeaderSizeInBytes_def frameHeaderFormat_def calcsize_def is_digit_def
      is_space_def digit_val_def standard_entry_def align_to_def PY_SSIZE_T_MAX_def)

text \<open>
  C8, as the code has it. For all non-negative integers \<open>w\<close> and \<open>h\<close> whose product is
  below \<open>2 ^ 62\<close>, \<open>getFrameSizeInBytes\<close> returns \<open>w * h * 2\<close>. From \<open>2 ^ 62\<close> on the frame
  would take more than \<open>PY_SSIZE_T_MAX\<close> bytes and the function raises \<open>struct.error\<close>;
  and a product of more than \<open>max_str_digits\<close> digits is refused by \<open>str\<close> before.
\<close>

theorem getFrameSizeInBytes_nonneg:
  "0 \<le> w \<Longrightarrow> 0 \<le> h \<Longrightarrow>
     getFrameSizeInBytes w h =
       (if w * h < 2 ^ 62 then Inr (nat (w * h * 2))
        else if w * h < 10 ^ max_str_digits then Inl StructError
        else Inl ValueError)"
proof -
  assume "0 \<le> w" "0 \<le> h"
  then have nn: "0 \<le> w * h" by simp
  consider (small) "w * h < 2 ^ 62"
    | (big) "2 ^ 62 \<le> w * h" "w * h < 10 ^ max_str_digits"
    | (huge) "2 ^ 62 \<le> w * h" "10 ^ max_str_digits \<le> w * h"
    by linarith
  then show ?thesis
  proof cases
    case small
    have "nat (w * h) * 2 = nat (w * h * 2)"
      using nn by (simp add: nat_mult_distrib)
    with getFrameSizeInBytes_eq [OF nn small] small show ?thesis by simp
  next
    case big
    from getFrameSizeInBytes_big [OF big] big show ?thesis by simp
  next
    case huge
    from huge(2) nn have "10 ^ max_str_digits \<le> abs (w * h)" by simp
    from getFrameSizeInBytes_huge [OF this] huge show ?thesis by simp
  qed
qed

theorem getFrameSizeInBytes_nonneg_witness:
  "(0::int) \<le> 3 \<and> (0::int) \<le> 4 \<and> getFrameSizeInBytes 3 4 = Inr 24"
  using getFrameSizeInBytes_nonneg [of 3 4] by simp

theorem getFrameSizeInBytes_ceiling_counterexample:
  "getFrameSizeInBytes 4611686018427387904 1 = Inl StructError"
  by (rule getFrameSizeInBytes_big) (use str_limit in simp_all)

text \<open>
  C1, as the code has it. The format of the frame header lays out 64 bytes, not 52:
  four bytes, three 4-byte integers, an 8-byte float, two 2-byte integers, a 4-byte
  integer, an 8-byte integer and 24 pad bytes.
\<close>

theorem frameHeaderSizeInBytes_64: "frameHeaderSizeInBytes = Inr 64"
  by (simp add: frameHeaderSizeInBytes_def frameHeaderFormat_def calcsize_def is_digit_def
      is_space_def digit_val_def standard_entry_def align_to_def PY_SSIZE_T_MAX_def)

theorem frameHeaderSizeInBytes_not_52: "frameHeaderSizeInBytes \<noteq> Inr 52"
  by (simp add: frameHeaderSizeInBytes_def frameHeaderFormat_def calcsize_def is_digit_def
      is_space_def digit_val_def standard_entry_def align_to_def PY_SSIZE_T_MAX_def)

subsection \<open>True division below \<open>2 ^ 53\<close> is exact\<close>

lemma scale_up_reaches: "0 < a \<Longrightarrow> 2 ^ 52 * b \<le> a * 2 ^ scale_up a b k"
proof (induction a b k rule: scale_up.induct)
  case (1 a b k)
  show ?case
  proof (cases "2 ^ 52 * b \<le> a * 2 ^ k")
    case True
    then show ?thesis by (subst scale_up.simps) simp
  next
    case False
    then have "scale_up a b k = scale_up a b (Suc k)"
      using "1.prems" by (subst scale_up.simps) simp
    then show ?thesis
      using "1.IH" False "1.prems" by simp
  qed
qed

lemma scale_up_le:
  "k \<le> K \<Longrightarrow> 2 ^ 52 * b \<le> a * 2 ^ K \<Longrightarrow> scale_up a b k \<le> K"
proof (induction a b k rule: scale_up.induct)
  case (1 a b k)
  show ?case
  proof (cases "a = 0 \<or> 2 ^ 52 * b \<le> a * 2 ^ k")
    case True
    then have "scale_up a b k = k" by (subst scale_up.simps) simp
    then show ?thesis using "1.prems" by simp
  next
    case False
    then have eq: "scale_up a b k = scale_up a b (Suc k)"
      by (subst scale_up.simps) simp
    have "k \<noteq> K" using False "1.prems" by auto
    then have "Suc k \<le> K" using "1.prems" by simp
    then show ?thesis
      using "1.IH" False "1.prems" eq by simp
  qed
qed

lemma round_half_even_bounds:
  assumes "0 < d"
  shows "2 * (round_half_even n d * d) \<le> 2 * n + d"
    and "2 * n \<le> 2 * (round_half_even n d * d) + d"
proof -
  define q r where "q = n div d" and "r = n mod d"
  have n: "n = q * d + r" by (simp add: q_def r_def)
  have r: "r < d" using assms by (simp add: r_def)
  have m: "round_half_even n d = q \<and> 2 * r \<le> d \<or> round_half_even n d = q + 1 \<and> d \<le> 2 * r"
    by (auto simp: round_half_even_def q_def r_def)
  have s: "(q + 1) * d = q * d + d" by (simp add: algebra_simps)
  show "2 * (round_half_even n d * d) \<le> 2 * n + d"
    using m n r s by auto
  show "2 * n \<le> 2 * (round_half_even n d * d) + d"
    using m n r s by auto
qed

lemma round_half_even_exact: "0 < d \<Longrightarrow> round_half_even (j * d) d = j"
  by (simp add: round_half_even_def)


lemma py_truediv_exact:
  assumes b: "0 < b" "b < 2 ^ 64" and a: "a < 2 ^ 53"
  shows "\<exists>x. py_truediv a b = Inr x \<and> (is_integer x \<longleftrightarrow> b dvd a) \<and>
           (b dvd a \<longrightarrow> float_to_int x = int (a div b))"
proof (cases "a = 0")
  case True
  then show ?thesis
    using b by (simp add: py_truediv_def is_integer_def float_to_int_def)
next
  case False
  define k where "k = scale_up a b 0"
  define P :: nat where "P = 2 ^ k"
  define m where "m = round_half_even (a * P) b"
  have P: "0 < P" by (simp add: P_def)
  have "2 ^ 52 * b \<le> (2::nat) ^ 52 * 2 ^ 64" using b by simp
  also have "\<dots> \<le> a * 2 ^ 116" using False by simp
  finally have "k \<le> 116" unfolding k_def by (intro scale_up_le) simp_all
  then have kmin: "min 1074 k = k" by simp
  have reach: "2 ^ 52 * b \<le> a * P"
    unfolding P_def k_def using False by (intro scale_up_reaches) simp
  have "a < 2 ^ 53 * b" using a b
    by (metis One_nat_def Suc_leI less_le_trans mult.right_neutral mult_le_mono2)
  moreover have "a < (2 ^ 1024 - 2 ^ 970) * b"
  proof -
    have "(2::nat) ^ 53 \<le> 2 ^ 1024 - 2 ^ 970" by simp
    then have "2 ^ 53 * b \<le> (2 ^ 1024 - 2 ^ 970) * b" by (rule mult_le_mono1)
    with \<open>a < 2 ^ 53 * b\<close> show ?thesis by linarith
  qed
  ultimately have eq: "py_truediv a b = Inr (Float53 m (- int k))"
    using False b unfolding py_truediv_def m_def P_def k_def [symmetric] kmin
    by (simp add: not_le)
  have int_iff: "is_integer (Float53 m (- int k)) \<longleftrightarrow> P dvd m"
    by (auto simp: is_integer_def P_def)
  have h1: "2 * (m * b) \<le> 2 * (a * P) + b" and h2: "2 * (a * P) \<le> 2 * (m * b) + b"
    unfolding m_def using round_half_even_bounds [OF b(1)] by blast+
  have dvd_imp: "b dvd a" if "P dvd m"
  proof (rule ccontr)
    assume nd: "\<not> b dvd a"
    from that obtain j where j: "m = j * P" by (auto simp: dvd_def mult.commute)
    have ne: "a \<noteq> j * b" using nd by auto
    have "2 * P \<le> b"
    proof (cases "a < j * b")
      case True
      then have "Suc a * (2 * P) \<le> j * b * (2 * P)" by (intro mult_le_mono1) simp
      then have "2 * (a * P) + 2 * P \<le> 2 * (j * P * b)" by (simp add: algebra_simps)
      with h1 show ?thesis unfolding j by linarith
    next
      case False
      with ne have "Suc (j * b) \<le> a" by simp
      then have "Suc (j * b) * (2 * P) \<le> a * (2 * P)" by (rule mult_le_mono1)
      then have "2 * (j * P * b) + 2 * P \<le> 2 * (a * P)" by (simp add: algebra_simps)
      with h2 show ?thesis unfolding j by linarith
    qed
    then have "2 ^ 52 * (2 * P) \<le> 2 ^ 52 * b" by (rule mult_le_mono2)
    moreover have "(2::nat) ^ 53 * P = 2 ^ 52 * (2 * P)" by simp
    ultimately have "2 ^ 53 * P \<le> a * P" using reach by linarith
    then have "2 ^ 53 \<le> a" using P by (simp only: mult_le_cancel2)
    with a show False by simp
  qed
  have exact: "m = a div b * P" if "b dvd a"
  proof -
    from that obtain j where j: "a = j * b" by (auto simp: dvd_def mult.commute)
    have "m = round_half_even (j * P * b) b" by (simp add: m_def j algebra_simps)
    also have "\<dots> = j * P" by (rule round_half_even_exact [OF b(1)])
    finally show ?thesis using b by (simp add: j)
  qed
  have "float_to_int (Float53 m (- int k)) = int (a div b)" if "b dvd a"
    using exact [OF that] P by (auto simp: float_to_int_def P_def)
  moreover have "P dvd m \<longleftrightarrow> b dvd a"
    using dvd_imp exact by auto
  ultimately show ?thesis
    using eq int_iff by simp
qed

subsection \<open>The file header and the shape of the data\<close>

lemmas scan_defs = calcsize_def is_digit_def is_space_def digit_val_def standard_entry_def
  PY_SSIZE_T_MAX_def
  native_entry_def align_to_def

lemma le_nat_bound: "le_nat bs < 256 ^ length bs"
proof (induction bs)
  case Nil
  show ?case by (simp add: le_nat_def)
next
  case (Cons b bs)
  have "unat b < 2 ^ LENGTH(8)" by (rule unsigned_less)
  then have "unat b < 256" by simp
  moreover have "le_nat (b # bs) = unat b + 256 * le_nat bs" by (simp add: le_nat_def)
  moreover have "Suc (le_nat bs) \<le> 256 ^ length bs" using Cons.IH by simp
  then have "256 * Suc (le_nat bs) \<le> 256 * 256 ^ length bs" by (rule mult_le_mono2)
  ultimately show ?case by simp
qed

lemma le_nat_take2: "le_nat (take 2 bs) < 65536"
proof -
  have "le_nat (take 2 bs) < 256 ^ length (take 2 bs)" by (rule le_nat_bound)
  also have "\<dots> \<le> 256 ^ 2" by (intro power_increasing) simp_all
  finally show ?thesis by simp
qed

lemma unpack_fileHeader_bad:
  "length buf \<noteq> 1024 \<Longrightarrow> unpack fileHeaderFormat buf = Inl StructError"
  by (simp add: unpack_def fileHeaderFormat_def scan_defs)

text \<open>
  The items of an unpacked header are indexed with \<open>!\<close> in the model. No index is out
  of range: a file header unpacks to nine items and a frame header to twelve.
\<close>

lemma unpack_fileHeader_length:
  "unpack fileHeaderFormat buf = Inr items \<Longrightarrow> length items = 9"
proof (cases "length buf = 1024")
  case True
  assume "unpack fileHeaderFormat buf = Inr items"
  then show ?thesis
    using True by (auto simp: unpack_def fileHeaderFormat_def scan_defs item_values_def)
next
  case False
  assume "unpack fileHeaderFormat buf = Inr items"
  then show ?thesis
    using unpack_fileHeader_bad [OF False] by simp
qed

lemma unpack_frameHeader_length:
  "unpack frameHeaderFormat buf = Inr items \<Longrightarrow> length items = 12"
proof (cases "length buf = 64")
  case True
  assume "unpack frameHeaderFormat buf = Inr items"
  then show ?thesis
    using True by (auto simp: unpack_def frameHeaderFormat_def scan_defs item_values_def)
next
  case False
  assume "unpack frameHeaderFormat buf = Inr items"
  then show ?thesis
    using False by (simp add: unpack_def frameHeaderFormat_def scan_defs)
qed

lemma getFileHeader_short:
  "length file < 1024 \<Longrightarrow> getFileHeader file = Inl StructError"
  by (simp add: getFileHeader_def fileHeaderSize read_bytes_def fopen_def unpack_fileHeader_bad)

lemma getFileHeader_dims:
  assumes "1024 \<le> length file"
  shows "\<exists>hdr. getFileHeader file = Inr hdr \<and>
           dict_get hdr ''width'' = Inr (PyInt (int (le_nat (take 2 (drop 88 file))))) \<and>
           dict_get hdr ''height'' = Inr (PyInt (int (le_nat (take 2 (drop 90 file)))))"
proof -
  have len: "length (take 1024 file) = 1024" using assms by simp
  show ?thesis
    using len
    by (simp add: getFileHeader_def fileHeaderSize read_bytes_def fopen_def unpack_def
        fileHeaderFormat_def scan_defs item_values_def dict_get_def decode_item_def drop_take)
qed

lemma frms6_header_iff:
  "frms6_header file w h \<longleftrightarrow>
     1024 \<le> length file \<and> w = int (le_nat (take 2 (drop 88 file))) \<and>
     h = int (le_nat (take 2 (drop 90 file)))"
proof (cases "1024 \<le> length file")
  case True
  from getFileHeader_dims [OF True] show ?thesis
    using True by (auto simp: frms6_header_def)
next
  case False
  then show ?thesis
    by (simp add: frms6_header_def getFileHeader_short)
qed

lemma getDataShape_eq:
  assumes hdr: "frms6_header file w h" and small: "length file < 2 ^ 53"
  shows "getDataShape file =
     (if (64 + nat (w * h) * 2) dvd (length file - 1024)
      then Inr (w, h, int ((length file - 1024) div (64 + nat (w * h) * 2)))
      else Inl Warning)"
proof -
  from hdr have len: "1024 \<le> length file"
    and w: "w = int (le_nat (take 2 (drop 88 file)))"
    and h: "h = int (le_nat (take 2 (drop 90 file)))"
    by (simp_all add: frms6_header_iff)
  from getFileHeader_dims [OF len] obtain fileHeader where
    fh: "getFileHeader file = Inr fileHeader"
    and fw: "dict_get fileHeader ''width'' = Inr (PyInt w)"
    and fh': "dict_get fileHeader ''height'' = Inr (PyInt h)"
    unfolding w h by blast
  have nn: "0 \<le> w * h" by (simp add: w h)
  define r where "r = 64 + nat (w * h) * 2"
  have "nat (w * h) = le_nat (take 2 (drop 88 file)) * le_nat (take 2 (drop 90 file))"
    by (simp add: w h nat_mult_distrib)
  also have "\<dots> \<le> 65536 * 65536"
    by (intro mult_le_mono) (use le_nat_take2 less_imp_le in blast)+
  finally have wh: "nat (w * h) \<le> 65536 * 65536" .
  then have r: "0 < r" "r < 2 ^ 64"
    by (simp_all add: r_def)
  have sm: "w * h < 2 ^ 62"
    using wh by (simp add: nat_le_iff)
  have a: "length file - 1024 < 2 ^ 53" using small by simp
  from py_truediv_exact [OF r a] obtain x where
    x: "py_truediv (length file - 1024) r = Inr x"
    and xi: "is_integer x \<longleftrightarrow> r dvd (length file - 1024)"
    and xv: "r dvd (length file - 1024) \<Longrightarrow> float_to_int x = int ((length file - 1024) div r)"
    by blast
  show ?thesis
    unfolding r_def [symmetric]
    using x xi xv
    by (simp add: getDataShape_def fh fw fh' py_int_def frameHeaderSize fileHeaderSize
        getFrameSizeInBytes_eq [OF nn sm] r_def)
qed

lemma frms6_header_butlast:
  assumes "frms6_header file w h" and "1024 < length file"
  shows "frms6_header (butlast file) w h"
  using assms by (auto simp: frms6_header_iff butlast_conv_take drop_take min_def)

text \<open>
  C3, as the code has it. For a file below \<open>2 ^ 53\<close> bytes whose header can be read,
  \<open>getDataShape\<close> returns the quotient of the file size less the file header by the
  record size when the division is exact, and raises \<open>Warning\<close> when it is not; in
  particular it raises \<open>Warning\<close> on every valid file of at least one frame cut short by
  one byte.
\<close>

theorem getDataShape_exact_or_Warning:
  "length file < 2 ^ 53 \<Longrightarrow>
     (frms6_header file w h \<longrightarrow>
        getDataShape file =
          (if (64 + nat (w * h) * 2) dvd (length file - 1024)
           then Inr (w, h, int ((length file - 1024) div (64 + nat (w * h) * 2)))
           else Inl Warning)) \<and>
     (frms6_valid file w h n \<and> 0 < n \<longrightarrow> getDataShape (butlast file) = Inl Warning)"
proof (intro conjI impI)
  assume "length file < 2 ^ 53" and "frms6_header file w h"
  then show "getDataShape file =
      (if (64 + nat (w * h) * 2) dvd (length file - 1024)
       then Inr (w, h, int ((length file - 1024) div (64 + nat (w * h) * 2)))
       else Inl Warning)"
    by (rule getDataShape_eq [rotated])
next
  assume small: "length file < 2 ^ 53" and "frms6_valid file w h n \<and> 0 < n"
  then have hdr: "frms6_header file w h" and n: "0 < n"
    and len: "length file = 1024 + n * (64 + nat (w * h) * 2)"
    by (simp_all add: frms6_valid_def)
  define r where "r = 64 + nat (w * h) * 2"
  have r: "1 < r" by (simp add: r_def)
  have "r \<le> n * r" using n by simp
  then have long: "1024 < length file" using r by (simp add: len r_def [symmetric])
  have blen: "length (butlast file) - 1024 = n * r - 1"
    by (simp add: len r_def)
  have "\<not> r dvd n * r - 1"
  proof
    assume "r dvd n * r - 1"
    moreover have "r dvd n * r" by simp
    ultimately have "r dvd n * r - (n * r - 1)" by (rule dvd_diff_nat [rotated])
    moreover have "n * r - (n * r - 1) = 1" using \<open>r \<le> n * r\<close> r by simp
    ultimately show False using r by simp
  qed
  moreover have "length (butlast file) < 2 ^ 53" using small by simp
  ultimately show "getDataShape (butlast file) = Inl Warning"
    using getDataShape_eq [OF frms6_header_butlast [OF hdr long]] blen
    by (simp add: r_def)
qed

theorem getDataShape_exact_or_Warning_witness:
  "length (replicate 88 0 @ [2, 0, 2, 0] @ replicate 932 0 @ replicate 72 (0::byte)) < 2 ^ 53 \<and>
   frms6_valid (replicate 88 0 @ [2, 0, 2, 0] @ replicate 932 0 @ replicate 72 0) 2 2 1 \<and>
   getDataShape (replicate 88 0 @ [2, 0, 2, 0] @ replicate 932 0 @ replicate 72 0) = Inr (2, 2, 1) \<and>
   getDataShape (butlast (replicate 88 0 @ [2, 0, 2, 0] @ replicate 932 0 @ replicate 72 0)) =
     Inl Warning"
proof -
  let ?f = "replicate 88 0 @ [2, 0, 2, 0] @ replicate 932 0 @ replicate 72 (0::byte)"
  have small: "length ?f < 2 ^ 53" by simp
  have hdr: "frms6_header ?f 2 2"
    by (simp add: frms6_header_iff le_nat_def)
  then have valid: "frms6_valid ?f 2 2 1"
    by (simp add: frms6_valid_def)
  from getDataShape_exact_or_Warning [OF small, of 2 2 1] hdr valid
  have "getDataShape ?f = Inr (2, 2, 1)" and "getDataShape (butlast ?f) = Inl Warning"
    by simp_all
  with small valid show ?thesis by blast
qed

theorem getDataShape_truncated_header_counterexample:
  "frms6_valid (replicate 88 0 @ [2, 0, 2, 0] @ replicate 932 (0::byte)) 2 2 0 \<and>
   getDataShape (butlast (replicate 88 0 @ [2, 0, 2, 0] @ replicate 932 0)) = Inl StructError \<and>
   getDataShape (butlast (replicate 88 0 @ [2, 0, 2, 0] @ replicate 932 0)) \<noteq> Inl Warning"
proof -
  let ?f = "replicate 88 0 @ [2, 0, 2, 0] @ replicate 932 (0::byte)"
  have "frms6_valid ?f 2 2 0"
    by (simp add: frms6_valid_def frms6_header_iff le_nat_def)
  moreover have "length (butlast ?f) < 1024" by simp
  then have "getDataShape (butlast ?f) = Inl StructError"
    by (simp only: getDataShape_def getFileHeader_short sum.case)
  ultimately show ?thesis by simp
qed

subsection \<open>Reading frames\<close>

lemma index_in_frame: "x < pX \<Longrightarrow> y < pY \<Longrightarrow> y * pX + x < pX * (pY::nat)"
proof -
  assume x: "x < pX" and y: "y < pY"
  have "y * pX + x < y * pX + pX" using x by simp
  also have "\<dots> = Suc y * pX" by simp
  also have "\<dots> \<le> pY * pX" using y by (intro mult_le_mono1) simp
  finally show ?thesis by (simp add: mult.commute)
qed

lemma frombuffer_window:
  assumes "q + 2 * n \<le> length bs"
  shows "np_frombuffer_uint16 (take (2 * n) (drop q bs)) =
           Inr (map (\<lambda>i. sample_at bs (q + 2 * i)) [0..<n])"
proof -
  have len: "length (take (2 * n) (drop q bs)) = 2 * n" using assms by simp
  have "take 2 (drop (2 * i) (take (2 * n) (drop q bs))) = take 2 (drop (q + 2 * i) bs)"
    if "i < n" for i
  proof -
    have "2 \<le> 2 * n - 2 * i" using that by simp
    then show ?thesis by (simp add: drop_take min_def add.commute)
  qed
  then show ?thesis
    unfolding np_frombuffer_uint16_def len by (simp add: sample_at_def)
qed

lemma transpose_reshape:
  "np_reshape2 (map f [0..<pX * pY]) pY pX =
     Inr (map (\<lambda>r. map (\<lambda>c. f (r * pX + c)) [0..<pX]) [0..<pY])"
proof -
  have "map f [0..<pX * pY] ! (r * pX + c) = f (r * pX + c)" if "r < pY" "c < pX" for r c
    using index_in_frame [OF that(2) that(1)] by simp
  then show ?thesis
    by (simp add: np_reshape2_def mult.commute)
qed

lemma transpose_rows:
  "np_transpose2 pY pX (map (\<lambda>r. map (\<lambda>c. g r c) [0..<pX]) [0..<pY]) =
     map (\<lambda>x. map (\<lambda>y. g y x) [0..<pY]) [0..<pX]"
  by (simp add: np_transpose2_def)

text \<open>A seek to a position inside a file that is shorter than \<open>2 ^ 63\<close> bytes succeeds.\<close>

lemma seek_cur_inside:
  "pos fh + n \<le> length (content fh) \<Longrightarrow> length (content fh) < 2 ^ 63 \<Longrightarrow>
     seek_cur lim n fh = Inr (fh\<lparr>pos := pos fh + n\<rparr>)"
  by (auto simp: seek_cur_def largest_offset_def OFF_T_MAX_def)

lemma seek_set_inside:
  "0 \<le> off \<Longrightarrow> nat off \<le> length (content fh) \<Longrightarrow> length (content fh) < 2 ^ 63 \<Longrightarrow>
     seek_set lim off fh = Inr (fh\<lparr>pos := nat off\<rparr>)"
  by (auto simp: seek_set_def largest_offset_def OFF_T_MAX_def)

lemma read_frames_step:
  assumes "pos (handle st) + fhsize + 2 * (pX * pY) \<le> length (content (handle st))"
    and small: "length (content (handle st)) < 2 ^ 63"
  shows "read_frames lim fhsize (2 * (pX * pY)) pX pY (k # idxs) st =
         read_frames lim fhsize (2 * (pX * pY)) pX pY idxs
           \<lparr>chunk = set_frame (chunk st) k
                      (frame_of (content (handle st)) (pos (handle st) + fhsize) pX pY),
            handle = after_read (2 * (pX * pY))
                       ((handle st)\<lparr>pos := pos (handle st) + fhsize\<rparr>)\<rparr>"
proof -
  let ?h = "handle st"
  let ?h' = "?h\<lparr>pos := pos ?h + fhsize\<rparr>"
  have sk: "seek_cur lim fhsize ?h = Inr ?h'"
    using assms by (intro seek_cur_inside) simp_all
  have "read_bytes (2 * (pX * pY)) ?h' =
          take (2 * (pX * pY)) (drop (pos ?h + fhsize) (content ?h))"
    by (simp add: read_bytes_def)
  then have fb: "np_frombuffer_uint16 (read_bytes (2 * (pX * pY)) ?h') =
      Inr (map (\<lambda>i. sample_at (content ?h) (pos ?h + fhsize + 2 * i)) [0..<pX * pY])"
    using frombuffer_window [OF assms(1)] by simp
  have tr: "np_transpose2 pY pX
        (map (\<lambda>r. map (\<lambda>c. sample_at (content ?h) (pos ?h + fhsize + 2 * (r * pX + c))) [0..<pX])
           [0..<pY]) = frame_of (content ?h) (pos ?h + fhsize) pX pY"
    unfolding frame_of_def by (rule transpose_rows)
  show ?thesis
    by (simp only: read_frames.simps sk fb sum.case transpose_reshape tr)
qed

lemma set_frame_partial:
  assumes "k < n"
  shows "set_frame
      \<lparr>dim_x = pX, dim_y = pY, dim_z = n,
       cells = map (\<lambda>x. map (\<lambda>y. map (\<lambda>z. if z < k then f x y z else 0) [0..<n]) [0..<pY])
                 [0..<pX]\<rparr>
      k (map (\<lambda>x. map (\<lambda>y. f x y k) [0..<pY]) [0..<pX]) =
    \<lparr>dim_x = pX, dim_y = pY, dim_z = n,
     cells = map (\<lambda>x. map (\<lambda>y. map (\<lambda>z. if z < Suc k then f x y z else 0) [0..<n]) [0..<pY])
               [0..<pX]\<rparr>"
proof -
  have "(map (\<lambda>z. if z < k then f x y z else 0) [0..<n])[k := f x y k] =
        map (\<lambda>z. if z < Suc k then f x y z else 0) [0..<n]" for x y
    using assms by (intro nth_equalityI) (auto simp: nth_list_update less_Suc_eq)
  then show ?thesis
    by (simp add: set_frame_def cong: map_cong if_cong)
qed

text \<open>
  The loop invariant: after \<open>k\<close> frames the first \<open>k\<close> planes of the chunk hold the
  frames read, the others are still zero, and the handle stands behind frame \<open>k\<close>.
\<close>

lemma read_frames_closed:
  fixes fl :: "byte list" and p fhsize pX pY n :: nat and rs :: "(nat \<times> nat) list"
  defines "rsize \<equiv> fhsize + 2 * (pX * pY)"
  defines "st \<equiv> \<lambda>k.
    \<lparr>chunk = \<lparr>dim_x = pX, dim_y = pY, dim_z = n,
       cells = map (\<lambda>x. map (\<lambda>y. map (\<lambda>z.
                 if z < k then sample_at fl (p + z * rsize + fhsize + 2 * (y * pX + x)) else 0)
                 [0..<n]) [0..<pY]) [0..<pX]\<rparr>,
     handle = \<lparr>content = fl, pos = p + k * rsize,
       reads = rs @ map (\<lambda>i. (p + i * rsize + fhsize, 2 * (pX * pY))) [0..<k]\<rparr>\<rparr>"
  assumes len: "p + n * rsize \<le> length fl" and small: "length fl < 2 ^ 63" and kn: "k \<le> n"
  shows "read_frames lim fhsize (2 * (pX * pY)) pX pY [k..<n] (st k) = Inr (st n)"
  using kn
proof (induction "n - k" arbitrary: k)
  case 0
  then show ?case by simp
next
  case (Suc d)
  then have k: "k < n" by simp
  have "Suc k * rsize \<le> n * rsize" using k by (intro mult_le_mono1) simp
  then have fits: "p + k * rsize + fhsize + 2 * (pX * pY) \<le> length fl"
    using len by (simp add: rsize_def)
  have fr: "frame_of fl (p + k * rsize + fhsize) pX pY =
      map (\<lambda>x. map (\<lambda>y. sample_at fl (p + k * rsize + fhsize + 2 * (y * pX + x))) [0..<pY])
        [0..<pX]"
    by (simp add: frame_of_def)
  have ch: "set_frame (chunk (st k)) k (frame_of fl (p + k * rsize + fhsize) pX pY) =
      chunk (st (Suc k))"
    unfolding fr st_def read_state.select_convs
    by (rule set_frame_partial [OF k])
  have hd: "after_read (2 * (pX * pY))
        ((handle (st k))\<lparr>pos := pos (handle (st k)) + fhsize\<rparr>) = handle (st (Suc k))"
    using fits by (simp add: st_def after_read_def read_bytes_def rsize_def)
  have "read_frames lim fhsize (2 * (pX * pY)) pX pY [k..<n] (st k) =
        read_frames lim fhsize (2 * (pX * pY)) pX pY (k # [Suc k..<n]) (st k)"
    using k by (simp only: upt_conv_Cons)
  also have "\<dots> = read_frames lim fhsize (2 * (pX * pY)) pX pY [Suc k..<n]
          \<lparr>chunk = set_frame (chunk (st k)) k
                    (frame_of (content (handle (st k))) (pos (handle (st k)) + fhsize) pX pY),
           handle = after_read (2 * (pX * pY))
                      ((handle (st k))\<lparr>pos := pos (handle (st k)) + fhsize\<rparr>)\<rparr>"
    using fits small by (intro read_frames_step) (simp_all add: st_def)
  also have "\<dots> = read_frames lim fhsize (2 * (pX * pY)) pX pY [Suc k..<n] (st (Suc k))"
    unfolding hd using ch by (simp add: st_def)
  also have "\<dots> = Inr (st n)"
    using Suc.hyps(2) k by (intro Suc.hyps(1)) simp_all
  finally show ?case .
qed

lemma double_bound: "(x::int) < 2 ^ 62 \<Longrightarrow> 2 * x < 2 ^ 63"
  by simp

lemma np_zeros_shape:
  assumes "0 \<le> a" "0 \<le> b" "0 \<le> c" and shape: "2 * (max 1 a * max 1 b * max 1 c) < 2 ^ 63"
  shows "np_zeros a b c = Inr
      \<lparr>dim_x = nat a, dim_y = nat b, dim_z = nat c,
       cells = replicate (nat a) (replicate (nat b) (replicate (nat c) 0))\<rparr>"
proof -
  have "\<not> NPY_MAX_INTP < 2 * (max 1 a * max 1 b * max 1 c)"
    using shape unfolding NPY_MAX_INTP_def by linarith
  then show ?thesis
    using assms(1-3) unfolding np_zeros_def by simp
qed

text \<open>A shape that numpy accepts has fewer than \<open>2 ^ 62\<close> cells in a plane.\<close>

lemma shape_plane:
  fixes a b c :: int
  assumes "0 \<le> a" "0 \<le> b" "2 * (max 1 a * max 1 b * max 1 c) < 2 ^ 63"
  shows "a * b < 2 ^ 62"
proof -
  have "a * b \<le> max 1 a * max 1 b"
    using assms(1,2) by (intro mult_mono) simp_all
  also have "\<dots> = max 1 a * max 1 b * 1" by simp
  also have "\<dots> \<le> max 1 a * max 1 b * max 1 c"
    by (intro mult_left_mono) simp_all
  finally show ?thesis
    using assms(3) by simp
qed

text \<open>
  The result of the method on a range of \<open>n\<close> frames whose first byte offset \<open>p\<close> is not
  negative and which the file holds, for a shape that numpy accepts: plane \<open>z\<close> of the
  chunk is the frame read at \<open>p + z * rsize\<close>, and the only reads are the \<open>n\<close> payloads.
\<close>

lemma readData_run_closed:
  fixes fl :: "byte list" and a :: int and n pX pY :: nat
  defines "rsize \<equiv> 64 + 2 * (pX * pY)"
  defines "p \<equiv> nat (1024 + a * int rsize)"
  assumes off: "0 \<le> 1024 + a * int rsize"
    and len: "p + n * rsize \<le> length fl"
    and small: "length fl < 2 ^ 63"
    and shape: "2 * (max 1 (int pX) * max 1 (int pY) * max 1 (int n)) < 2 ^ 63"
  shows "Frms6Reader_readData_run lim fl (a, a + int n) (int pX) (int pY) = Inr
    \<lparr>chunk = \<lparr>dim_x = pX, dim_y = pY, dim_z = n,
       cells = map (\<lambda>x. map (\<lambda>y. map (\<lambda>z.
                 sample_at fl (p + z * rsize + 64 + 2 * (y * pX + x)))
                 [0..<n]) [0..<pY]) [0..<pX]\<rparr>,
     handle = \<lparr>content = fl, pos = p + n * rsize,
       reads = map (\<lambda>i. (p + i * rsize + 64, 2 * (pX * pY))) [0..<n]\<rparr>\<rparr>"
proof -
  have "int pX * int pY < 2 ^ 62"
    using shape by (intro shape_plane) simp_all
  then have fs: "getFrameSizeInBytes (int pX) (int pY) = Inr (2 * (pX * pY))"
    using getFrameSizeInBytes_eq [of "int pX" "int pY"]
    by (simp add: nat_mult_distrib mult.commute)
  have z: "np_zeros (int pX) (int pY) (a + int n - a) = Inr
      \<lparr>dim_x = pX, dim_y = pY, dim_z = n,
       cells = map (\<lambda>x. map (\<lambda>y. map (\<lambda>z.
                 if z < 0 then sample_at fl (p + z * rsize + 64 + 2 * (y * pX + x))
                 else 0) [0..<n]) [0..<pY]) [0..<pX]\<rparr>"
    using np_zeros_shape [OF _ _ _ shape] by (simp add: map_replicate_const)
  have offeq: "int 1024 + a * (int 64 + int (2 * (pX * pY))) = 1024 + a * int rsize"
    by (simp add: rsize_def)
  have "p \<le> length fl" using len by simp
  then have sk: "seek_set lim (int 1024 + a * (int 64 + int (2 * (pX * pY)))) (fopen fl) =
      Inr \<lparr>content = fl, pos = p + 0 * rsize,
           reads = [] @ map (\<lambda>i. (p + i * rsize + 64, 2 * (pX * pY))) [0..<0]\<rparr>"
    unfolding offeq using off small
    by (subst seek_set_inside) (simp_all add: fopen_def p_def)
  have nn: "nat (a + int n - a) = n" by simp
  have "Frms6Reader_readData_run lim fl (a, a + int n) (int pX) (int pY) =
      read_frames lim 64 (2 * (pX * pY)) pX pY [0..<n]
       \<lparr>chunk = \<lparr>dim_x = pX, dim_y = pY, dim_z = n,
          cells = map (\<lambda>x. map (\<lambda>y. map (\<lambda>z.
                 if z < 0 then sample_at fl (p + z * rsize + 64 + 2 * (y * pX + x))
                 else 0) [0..<n]) [0..<pY]) [0..<pX]\<rparr>,
        handle = \<lparr>content = fl, pos = p + 0 * rsize,
           reads = [] @ map (\<lambda>i. (p + i * rsize + 64, 2 * (pX * pY))) [0..<0]\<rparr>\<rparr>"
    by (simp only: Frms6Reader_readData_run_def fileHeaderSize frameHeaderSize fs sum.case
        fst_conv snd_conv z sk nn nat_int)
  also have "\<dots> = Inr
       \<lparr>chunk = \<lparr>dim_x = pX, dim_y = pY, dim_z = n,
          cells = map (\<lambda>x. map (\<lambda>y. map (\<lambda>z.
                 if z < n then sample_at fl (p + z * rsize + 64 + 2 * (y * pX + x))
                 else 0) [0..<n]) [0..<pY]) [0..<pX]\<rparr>,
        handle = \<lparr>content = fl, pos = p + n * rsize,
           reads = [] @ map (\<lambda>i. (p + i * rsize + 64, 2 * (pX * pY))) [0..<n]\<rparr>\<rparr>"
    using len small unfolding rsize_def by (intro read_frames_closed) simp_all
  also have "\<dots> = Inr
    \<lparr>chunk = \<lparr>dim_x = pX, dim_y = pY, dim_z = n,
       cells = map (\<lambda>x. map (\<lambda>y. map (\<lambda>z.
                 sample_at fl (p + z * rsize + 64 + 2 * (y * pX + x)))
                 [0..<n]) [0..<pY]) [0..<pX]\<rparr>,
     handle = \<lparr>content = fl, pos = p + n * rsize,
       reads = map (\<lambda>i. (p + i * rsize + 64, 2 * (pX * pY))) [0..<n]\<rparr>\<rparr>"
    by (simp cong: map_cong)
  finally show ?thesis .
qed

text \<open>The same for integers, as the method takes them.\<close>

lemma readData_closed:
  fixes fl :: "byte list" and a b pX pY :: int
  defines "rsize \<equiv> 64 + 2 * (nat pX * nat pY)"
  defines "p \<equiv> nat (1024 + a * int rsize)"
  assumes "0 \<le> pX" "0 \<le> pY" "a \<le> b" "0 \<le> 1024 + a * int rsize"
    and "p + nat (b - a) * rsize \<le> length fl"
    and "length fl < 2 ^ 63"
    and "2 * (max 1 pX * max 1 pY * max 1 (b - a)) < 2 ^ 63"
  shows "Frms6Reader_readData lim fl (a, b) pX pY = Inr
    \<lparr>dim_x = nat pX, dim_y = nat pY, dim_z = nat (b - a),
       cells = map (\<lambda>x. map (\<lambda>y. map (\<lambda>z.
                 sample_at fl (p + z * rsize + 64 + 2 * (y * nat pX + x)))
                 [0..<nat (b - a)]) [0..<nat pY]) [0..<nat pX]\<rparr>"
proof -
  have shape': "2 * (max 1 (int (nat pX)) * max 1 (int (nat pY)) * max 1 (int (nat (b - a))))
      < 2 ^ 63"
    using assms(3-5,9) by simp
  have "Frms6Reader_readData lim fl (a, a + int (nat (b - a))) (int (nat pX)) (int (nat pY)) = Inr
    \<lparr>dim_x = nat pX, dim_y = nat pY, dim_z = nat (b - a),
       cells = map (\<lambda>x. map (\<lambda>y. map (\<lambda>z.
                 sample_at fl (p + z * rsize + 64 + 2 * (y * nat pX + x)))
                 [0..<nat (b - a)]) [0..<nat pY]) [0..<nat pX]\<rparr>"
    unfolding Frms6Reader_readData_def p_def rsize_def
    using assms(4-8) shape' readData_run_closed [of a "nat pX" "nat pY" "nat (b - a)" fl lim]
    by (simp add: p_def rsize_def)
  then show ?thesis using assms(3-5) by simp
qed

lemma frms6_valid_dims:
  assumes "frms6_valid fl w h N"
  shows "0 \<le> w" and "0 \<le> h" and "length fl = 1024 + N * (64 + 2 * (nat w * nat h))"
proof -
  from assms have hdr: "frms6_header fl w h"
    and len: "length fl = 1024 + N * (64 + nat (w * h) * 2)"
    by (simp_all add: frms6_valid_def)
  from hdr show w: "0 \<le> w" and h: "0 \<le> h"
    by (simp_all add: frms6_header_iff)
  show "length fl = 1024 + N * (64 + 2 * (nat w * nat h))"
    using len w h by (simp add: nat_mult_distrib mult.commute)
qed

lemma frms6_valid_plane:
  assumes "frms6_valid fl w h N"
  shows "w < 65536" and "h < 65536" and "w * h < 2 ^ 62"
proof -
  from assms have hdr: "frms6_header fl w h"
    by (simp add: frms6_valid_def)
  then show w: "w < 65536" and h: "h < 65536"
    using le_nat_take2 [of "drop 88 fl"] le_nat_take2 [of "drop 90 fl"]
    by (simp_all add: frms6_header_iff)
  have "w * h \<le> 65536 * 65536"
    using w h frms6_valid_dims(1,2) [OF assms] by (intro mult_mono) simp_all
  then show "w * h < 2 ^ 62" by simp
qed

lemma slice_cells:
  assumes "a + n \<le> N"
  shows "take n (drop a (map F [0..<N])) = map (\<lambda>z. F (a + z)) [0..<n]"
  using assms by (intro nth_equalityI) simp_all

lemma slice_z_closed:
  assumes "a \<le> b" "b \<le> N"
  shows "slice_z a b
      \<lparr>dim_x = dx, dim_y = dy, dim_z = N,
       cells = map (\<lambda>x. map (\<lambda>y. map (F x y) [0..<N]) [0..<dy]) [0..<dx]\<rparr> =
      \<lparr>dim_x = dx, dim_y = dy, dim_z = b - a,
       cells = map (\<lambda>x. map (\<lambda>y. map (\<lambda>z. F x y (a + z)) [0..<b - a]) [0..<dy]) [0..<dx]\<rparr>"
proof -
  have "a + (b - a) \<le> N" using assms by simp
  then show ?thesis
    by (simp add: slice_z_def slice_cells comp_def)
qed

text \<open>
  numpy takes the array of any range of frames of a valid file below \<open>2 ^ 52\<close> bytes,
  also when the frames have no pixels.
\<close>

lemma frms6_valid_shape:
  assumes valid: "frms6_valid fl w h N" and small: "length fl < 2 ^ 52" and n: "n \<le> int N"
  shows "2 * (max 1 w * max 1 h * max 1 n) < 2 ^ 63"
proof -
  note dims = frms6_valid_dims [OF valid]
  note plane = frms6_valid_plane [OF valid]
  have len: "int (length fl) = 1024 + int N * (64 + 2 * (w * h))"
    using dims by (simp add: nat_mult_distrib)
  have M: "max 1 n \<le> max 1 (int N)" using n by simp
  show ?thesis
  proof (cases "w = 0 \<or> h = 0")
    case True
    then have P: "max 1 w * max 1 h \<le> 65535"
      using plane(1,2) dims(1,2) by (auto simp: max_def)
    have "int N * 64 \<le> int N * (64 + 2 * (w * h))"
      using dims(1,2) by (intro mult_left_mono) simp_all
    then have "int N * 64 < 2 ^ 52" using len small by simp
    then have "max 1 (int N) \<le> 2 ^ 46" by simp
    with M have "max 1 n \<le> 2 ^ 46" by simp
    with P have "max 1 w * max 1 h * max 1 n \<le> 65535 * 2 ^ 46"
      by (intro mult_mono) simp_all
    moreover have "(65535::int) * 2 ^ 46 < 2 ^ 62" by simp
    ultimately have "max 1 w * max 1 h * max 1 n < 2 ^ 62" by (rule le_less_trans)
    then show ?thesis by (rule double_bound)
  next
    case False
    then have wh: "max 1 w = w" "max 1 h = h" "0 \<le> w * h"
      using dims(1,2) by simp_all
    show ?thesis
    proof (cases "N = 0")
      case True
      then have "max 1 n = 1" using n by simp
      then have eq: "max 1 w * max 1 h * max 1 n = w * h" by (simp add: wh)
      show ?thesis
        unfolding eq by (rule double_bound [OF plane(3)])
    next
      case False
      then have "max 1 n \<le> int N" using M by simp
      then have "w * h * max 1 n \<le> w * h * int N"
        using wh(3) by (rule mult_left_mono)
      moreover have "2 * (w * h * int N) \<le> int (length fl)"
        unfolding len by (simp add: algebra_simps)
      moreover have "int (length fl) < 2 ^ 52"
        using small by simp
      ultimately have "2 * (w * h * max 1 n) < 2 ^ 52" by linarith
      also have "(2::int) ^ 52 < 2 ^ 63" by simp
      finally show ?thesis by (simp only: wh)
    qed
  qed
qed

text \<open>
  C5. For every valid frms6 file with \<open>N\<close> frames (below \<open>2 ^ 52\<close> bytes, where numpy
  takes the array of the whole file whatever its width and height) and all
  \<open>0 \<le> a \<le> b \<le> N\<close>, reading the range \<open>[a, b)\<close> gives the slice from \<open>a\<close> to \<open>b\<close>, along
  the third axis, of reading the range \<open>[0, N)\<close> with the same width and height.
\<close>

theorem readData_subrange_is_slice:
  "frms6_valid fl w h N \<Longrightarrow> length fl < 2 ^ 52 \<Longrightarrow> 0 \<le> a \<Longrightarrow> a \<le> b \<Longrightarrow> b \<le> int N \<Longrightarrow>
     \<exists>full. Frms6Reader_readData lim fl (0, int N) w h = Inr full \<and>
       Frms6Reader_readData lim fl (a, b) w h = Inr (slice_z (nat a) (nat b) full)"
proof -
  assume valid: "frms6_valid fl w h N" and small: "length fl < 2 ^ 52"
    and a: "0 \<le> a" and ab: "a \<le> b" and bN: "b \<le> int N"
  define rsize where "rsize = 64 + 2 * (nat w * nat h)"
  note dims = frms6_valid_dims [OF valid]
  have small63: "length fl < 2 ^ 63"
    by (rule less_trans [OF small]) simp
  have shapeN: "2 * (max 1 w * max 1 h * max 1 (int N - 0)) < 2 ^ 63"
    using frms6_valid_shape [OF valid small, of "int N"] by simp
  have "b - a \<le> int N" using a bN by simp
  then have shapeab: "2 * (max 1 w * max 1 h * max 1 (b - a)) < 2 ^ 63"
    by (rule frms6_valid_shape [OF valid small])
  have len: "length fl = 1024 + N * rsize" using dims(3) by (simp add: rsize_def)
  have pa: "nat (1024 + a * int rsize) = 1024 + nat a * rsize"
    using a by (simp add: nat_add_distrib nat_mult_distrib)
  have "nat a + nat (b - a) = nat b" using a ab by simp
  also have "\<dots> \<le> N" using bN by simp
  finally have "(nat a + nat (b - a)) * rsize \<le> N * rsize" by (rule mult_le_mono1)
  then have fits: "1024 + nat a * rsize + nat (b - a) * rsize \<le> length fl"
    by (simp add: len algebra_simps)
  have full: "Frms6Reader_readData lim fl (0, int N) w h = Inr
      \<lparr>dim_x = nat w, dim_y = nat h, dim_z = N,
       cells = map (\<lambda>x. map (\<lambda>y. map (\<lambda>z.
                 sample_at fl (1024 + z * rsize + 64 + 2 * (y * nat w + x)))
                 [0..<N]) [0..<nat h]) [0..<nat w]\<rparr>"
    using readData_closed [of w h 0 "int N" fl lim] dims(1,2) len small63 shapeN
    by (simp add: rsize_def)
  have part: "Frms6Reader_readData lim fl (a, b) w h = Inr
      \<lparr>dim_x = nat w, dim_y = nat h, dim_z = nat (b - a),
       cells = map (\<lambda>x. map (\<lambda>y. map (\<lambda>z.
                 sample_at fl (1024 + nat a * rsize + z * rsize + 64 + 2 * (y * nat w + x)))
                 [0..<nat (b - a)]) [0..<nat h]) [0..<nat w]\<rparr>"
    using readData_closed [of w h a b fl lim] dims(1,2) ab a fits small63 shapeab
    unfolding rsize_def [symmetric] pa by simp
  have nb: "nat b - nat a = nat (b - a)" using a ab by simp
  have le: "nat a \<le> nat b" "nat b \<le> N" using a ab bN by simp_all
  have shift: "1024 + (nat a + z) * rsize + 64 + 2 * (y * nat w + x) =
      1024 + nat a * rsize + z * rsize + 64 + 2 * (y * nat w + x)" for x y z
    by (simp add: algebra_simps)
  have "slice_z (nat a) (nat b)
      \<lparr>dim_x = nat w, dim_y = nat h, dim_z = N,
       cells = map (\<lambda>x. map (\<lambda>y. map (\<lambda>z.
                 sample_at fl (1024 + z * rsize + 64 + 2 * (y * nat w + x)))
                 [0..<N]) [0..<nat h]) [0..<nat w]\<rparr> =
      \<lparr>dim_x = nat w, dim_y = nat h, dim_z = nat (b - a),
       cells = map (\<lambda>x. map (\<lambda>y. map (\<lambda>z.
                 sample_at fl (1024 + nat a * rsize + z * rsize + 64 + 2 * (y * nat w + x)))
                 [0..<nat (b - a)]) [0..<nat h]) [0..<nat w]\<rparr>"
    by (simp only: slice_z_closed [OF le] nb shift)
  with full part show ?thesis by simp
qed

lemma example_file_valid: "frms6_valid example_file 2 2 2"
  by (simp add: frms6_valid_def frms6_header_iff le_nat_def example_file_def)

lemma example_file_length: "length example_file = 1168"
  by (simp add: example_file_def)

theorem readData_subrange_is_slice_witness:
  "frms6_valid example_file 2 2 2 \<and> length example_file < 2 ^ 52 \<and>
   (0::int) \<le> 1 \<and> (1::int) \<le> 2 \<and> (2::int) \<le> int 2 \<and>
   (\<exists>full. Frms6Reader_readData 17592186040320 example_file (0, int 2) 2 2 = Inr full \<and>
      Frms6Reader_readData 17592186040320 example_file (1, 2) 2 2 =
        Inr (slice_z (nat 1) (nat 2) full))"
  using readData_subrange_is_slice [OF example_file_valid, of 1 2 17592186040320]
    example_file_valid
  by (simp add: example_file_length)

lemma frame_at_closed:
  assumes "k < n"
  shows "frame_at
      \<lparr>dim_x = dx, dim_y = dy, dim_z = n,
       cells = map (\<lambda>x. map (\<lambda>y. map (F x y) [0..<n]) [0..<dy]) [0..<dx]\<rparr> k =
      map (\<lambda>x. map (\<lambda>y. F x y k) [0..<dy]) [0..<dx]"
  using assms by (simp add: frame_at_def comp_def)

lemma frame_pipeline:
  assumes "q + 2 * (pX * pY) \<le> length fl"
  shows "\<exists>flat m. np_frombuffer_uint16 (take (2 * (pX * pY)) (drop q fl)) = Inr flat \<and>
           np_reshape2 flat pY pX = Inr m \<and> np_transpose2 pY pX m = frame_of fl q pX pY"
proof -
  have "np_transpose2 pY pX
        (map (\<lambda>r. map (\<lambda>c. sample_at fl (q + 2 * (r * pX + c))) [0..<pX]) [0..<pY]) =
      frame_of fl q pX pY"
    unfolding frame_of_def by (rule transpose_rows)
  with frombuffer_window [OF assms] transpose_reshape show ?thesis by blast
qed

text \<open>
  C2. For every frame that \<open>readData\<close> reads, with the width and height the caller
  supplies, the unsigned 16-bit samples of the payload are reshaped row-major into
  (height, width) and transposed; the result is the array at that frame's position
  along the third axis. The frames are read whenever the file holds them, is shorter
  than \<open>2 ^ 63\<close> bytes, and numpy takes the shape of the result.
\<close>

theorem readData_frame_reshape_transpose:
  "0 \<le> pX \<Longrightarrow> 0 \<le> pY \<Longrightarrow> 0 \<le> a \<Longrightarrow> a \<le> b \<Longrightarrow>
   1024 + nat b * (64 + nat pX * nat pY * 2) \<le> length fl \<Longrightarrow>
   length fl < 2 ^ 63 \<Longrightarrow> 2 * (max 1 pX * max 1 pY * max 1 (b - a)) < 2 ^ 63 \<Longrightarrow>
     \<exists>c. Frms6Reader_readData lim fl (a, b) pX pY = Inr c \<and>
       dim_x c = nat pX \<and> dim_y c = nat pY \<and> dim_z c = nat (b - a) \<and>
       (\<forall>k<nat (b - a). \<exists>flat m.
          np_frombuffer_uint16 (frame_bytes fl (nat pX) (nat pY) (nat a + k)) = Inr flat \<and>
          np_reshape2 flat (nat pY) (nat pX) = Inr m \<and>
          frame_at c k = np_transpose2 (nat pY) (nat pX) m)"
proof -
  assume pX: "0 \<le> pX" and pY: "0 \<le> pY" and a: "0 \<le> a" and ab: "a \<le> b"
    and len: "1024 + nat b * (64 + nat pX * nat pY * 2) \<le> length fl"
    and small: "length fl < 2 ^ 63"
    and shape: "2 * (max 1 pX * max 1 pY * max 1 (b - a)) < 2 ^ 63"
  define rsize where "rsize = 64 + 2 * (nat pX * nat pY)"
  define n where "n = nat (b - a)"
  have len': "1024 + nat b * rsize \<le> length fl"
    using len by (simp add: rsize_def mult.commute)
  have pa: "nat (1024 + a * int rsize) = 1024 + nat a * rsize"
    using a by (simp add: nat_add_distrib nat_mult_distrib)
  have nb: "nat a + n = nat b" using a ab by (simp add: n_def)
  have fits: "1024 + nat a * rsize + n * rsize \<le> length fl"
    using len' nb [symmetric] by (simp add: algebra_simps)
  define c where "c =
      \<lparr>dim_x = nat pX, dim_y = nat pY, dim_z = n,
       cells = map (\<lambda>x. map (\<lambda>y. map (\<lambda>z.
                 sample_at fl (1024 + nat a * rsize + z * rsize + 64 + 2 * (y * nat pX + x)))
                 [0..<n]) [0..<nat pY]) [0..<nat pX]\<rparr>"
  have res: "Frms6Reader_readData lim fl (a, b) pX pY = Inr c"
    using readData_closed [of pX pY a b fl lim] pX pY ab a fits small shape
    unfolding rsize_def [symmetric] pa n_def [symmetric] c_def by simp
  have frame: "\<exists>flat m.
      np_frombuffer_uint16 (frame_bytes fl (nat pX) (nat pY) (nat a + k)) = Inr flat \<and>
      np_reshape2 flat (nat pY) (nat pX) = Inr m \<and>
      frame_at c k = np_transpose2 (nat pY) (nat pX) m" if k: "k < n" for k
  proof -
    define q where "q = 1024 + nat a * rsize + k * rsize + 64"
    have "Suc k * rsize \<le> n * rsize" using k by (intro mult_le_mono1) simp
    then have q: "q + 2 * (nat pX * nat pY) \<le> length fl"
      using fits by (simp add: q_def rsize_def)
    have fb: "frame_bytes fl (nat pX) (nat pY) (nat a + k) =
        take (2 * (nat pX * nat pY)) (drop q fl)"
      by (simp add: frame_bytes_def q_def rsize_def algebra_simps)
    have "frame_at c k = map (\<lambda>x. map (\<lambda>y.
        sample_at fl (1024 + nat a * rsize + k * rsize + 64 + 2 * (y * nat pX + x)))
        [0..<nat pY]) [0..<nat pX]"
      unfolding c_def by (rule frame_at_closed [OF k])
    then have "frame_at c k = frame_of fl q (nat pX) (nat pY)"
      by (simp add: frame_of_def q_def)
    with frame_pipeline [OF q] show ?thesis
      unfolding fb by metis
  qed
  have "dim_x c = nat pX" "dim_y c = nat pY" "dim_z c = nat (b - a)"
    by (simp_all add: c_def n_def)
  with res frame show ?thesis
    unfolding n_def by blast
qed

lemma example_frame_bytes:
  "frame_bytes example_file 2 2 0 = [1, 0, 2, 0, 3, 0, 4, 0]"
  "frame_bytes example_file 2 2 1 = [5, 0, 6, 0, 7, 0, 8, 0]"
  "frame_bytes example_file 2 2 (Suc 0) = [5, 0, 6, 0, 7, 0, 8, 0]"
  by (simp_all add: frame_bytes_def example_file_def)

lemma example_frombuffer:
  "np_frombuffer_uint16 [1, 0, 2, 0, 3, 0, 4, 0] = Inr [1, 2, 3, 4]"
  "np_frombuffer_uint16 [5, 0, 6, 0, 7, 0, 8, 0] = Inr [5, 6, 7, 8]"
  by (simp_all add: np_frombuffer_uint16_def le_nat_def upt_conv_Cons)

lemma example_reshape:
  "np_reshape2 [1, 2, 3, 4] 2 2 = Inr [[1, 2], [3, 4]]"
  "np_reshape2 [5, 6, 7, 8] 2 2 = Inr [[5, 6], [7, 8]]"
  by (simp_all add: np_reshape2_def upt_conv_Cons)

lemma example_transpose:
  "np_transpose2 2 2 [[1, 2], [3, 4]] = [[1, 3], [2, 4]]"
  "np_transpose2 2 2 [[5, 6], [7, 8]] = [[5, 7], [6, 8]]"
  by (simp_all add: np_transpose2_def upt_conv_Cons)

theorem readData_frame_reshape_transpose_witness:
  "(0::int) \<le> 2 \<and> (0::int) \<le> 0 \<and> (0::int) \<le> 2 \<and>
   1024 + nat 2 * (64 + nat 2 * nat 2 * 2) \<le> length example_file \<and>
   length example_file < 2 ^ 63 \<and>
   (2::int) * (max 1 2 * max 1 2 * max 1 (2 - 0)) < 2 ^ 63 \<and>
   (\<exists>c. Frms6Reader_readData 17592186040320 example_file (0, 2) 2 2 = Inr c \<and>
      frame_at c 0 = [[1, 3], [2, 4]] \<and> frame_at c 1 = [[5, 7], [6, 8]])"
proof -
  have len: "1024 + nat 2 * (64 + nat 2 * nat 2 * 2) \<le> length example_file"
    by (simp add: example_file_def)
  have small: "length example_file < 2 ^ 63"
    by (simp add: example_file_length)
  have shape: "(2::int) * (max 1 2 * max 1 2 * max 1 (2 - 0)) < 2 ^ 63"
    by simp
  from readData_frame_reshape_transpose [OF _ _ _ _ len small shape, of 17592186040320]
  obtain c where c: "Frms6Reader_readData 17592186040320 example_file (0, 2) 2 2 = Inr c"
    and fr: "\<And>k. k < 2 \<Longrightarrow> \<exists>flat m.
          np_frombuffer_uint16 (frame_bytes example_file 2 2 k) = Inr flat \<and>
          np_reshape2 flat 2 2 = Inr m \<and> frame_at c k = np_transpose2 2 2 m"
    by auto
  from fr [of 0] have "frame_at c 0 = [[1, 3], [2, 4]]"
    by (auto simp: example_frame_bytes example_frombuffer example_reshape example_transpose)
  moreover from fr [of 1] have "frame_at c 1 = [[5, 7], [6, 8]]"
    by (auto simp: example_frame_bytes example_frombuffer example_reshape example_transpose)
  ultimately show ?thesis using c len small by auto
qed

lemma readData_run_empty:
  assumes "0 \<le> pX" "0 \<le> pY" and shape: "2 * (max 1 pX * max 1 pY) < 2 ^ 63"
    and off: "0 \<le> 1024 + s * (64 + pX * pY * 2)" "1024 + s * (64 + pX * pY * 2) < 2 ^ 63"
      "1024 + s * (64 + pX * pY * 2) \<le> int (max lim (length fl))"
  shows "Frms6Reader_readData_run lim fl (s, s) pX pY = Inr
    \<lparr>chunk = \<lparr>dim_x = nat pX, dim_y = nat pY, dim_z = 0,
              cells = replicate (nat pX) (replicate (nat pY) [])\<rparr>,
     handle = \<lparr>content = fl, pos = nat (1024 + s * (64 + pX * pY * 2)), reads = []\<rparr>\<rparr>"
proof -
  have nn: "0 \<le> pX * pY" using assms(1,2) by simp
  have sm: "pX * pY < 2 ^ 62"
    using assms(1,2) shape by (intro shape_plane [of pX pY 0]) simp_all
  have fs: "getFrameSizeInBytes pX pY = Inr (nat (pX * pY) * 2)"
    by (rule getFrameSizeInBytes_eq [OF nn sm])
  have eq: "int 1024 + s * (int 64 + int (nat (pX * pY) * 2)) = 1024 + s * (64 + pX * pY * 2)"
    using nn by simp
  have z: "np_zeros pX pY (s - s) = Inr
      \<lparr>dim_x = nat pX, dim_y = nat pY, dim_z = 0,
       cells = replicate (nat pX) (replicate (nat pY) [])\<rparr>"
    using assms(1,2) shape by (simp add: np_zeros_def NPY_MAX_INTP_def)
  have sk: "seek_set lim (1024 + s * (64 + pX * pY * 2)) (fopen fl) =
      Inr \<lparr>content = fl, pos = nat (1024 + s * (64 + pX * pY * 2)), reads = []\<rparr>"
    using off by (auto simp: seek_set_def largest_offset_def OFF_T_MAX_def fopen_def)
  show ?thesis
    by (simp only: Frms6Reader_readData_run_def fileHeaderSize frameHeaderSize fs sum.case
        fst_conv snd_conv z eq sk) simp
qed

text \<open>
  C9, as the code has it. For every frame range whose start equals its end,
  \<open>readData\<close> does not raise when \<open>pixels_x\<close> and \<open>pixels_y\<close> are not negative and span
  a shape numpy takes, and the byte offset \<open>1024 + start * recordSize\<close> is one the
  system seeks to: not negative, below \<open>2 ^ 63\<close>, and not beyond the largest offset of
  the file system (or inside the file). It then returns the empty array of shape
  (\<open>pixels_x\<close>, \<open>pixels_y\<close>, 0) and reads no byte of the file.
\<close>

theorem readData_empty_range:
  "0 \<le> pX \<Longrightarrow> 0 \<le> pY \<Longrightarrow> 2 * (max 1 pX * max 1 pY) < 2 ^ 63 \<Longrightarrow>
   0 \<le> 1024 + s * (64 + pX * pY * 2) \<Longrightarrow> 1024 + s * (64 + pX * pY * 2) < 2 ^ 63 \<Longrightarrow>
   1024 + s * (64 + pX * pY * 2) \<le> int (max lim (length fl)) \<Longrightarrow>
     Frms6Reader_readData lim fl (s, s) pX pY =
       Inr \<lparr>dim_x = nat pX, dim_y = nat pY, dim_z = 0,
            cells = replicate (nat pX) (replicate (nat pY) [])\<rparr> \<and>
     (\<exists>st. Frms6Reader_readData_run lim fl (s, s) pX pY = Inr st \<and> reads (handle st) = [])"
  by (simp add: Frms6Reader_readData_def readData_run_empty)

theorem readData_empty_range_witness:
  "(0::int) \<le> 2 \<and> (2::int) * (max 1 2 * max 1 2) < 2 ^ 63 \<and>
   (0::int) \<le> 1024 + 3 * (64 + 2 * 2 * 2) \<and> (1024::int) + 3 * (64 + 2 * 2 * 2) < 2 ^ 63 \<and>
   (1024::int) + 3 * (64 + 2 * 2 * 2) \<le> int (max 17592186040320 (length example_file)) \<and>
   Frms6Reader_readData 17592186040320 example_file (3, 3) 2 2 =
     Inr \<lparr>dim_x = 2, dim_y = 2, dim_z = 0, cells = [[[], []], [[], []]]\<rparr> \<and>
   (\<exists>st. Frms6Reader_readData_run 17592186040320 example_file (3, 3) 2 2 = Inr st \<and>
      reads (handle st) = [])"
  using readData_empty_range [of 2 2 3 17592186040320 example_file]
  by (simp add: numeral_2_eq_2 example_file_length)

text \<open>
  Outside those bounds the call raises: at a negative offset, at an offset that does
  not fit \<open>off_t\<close>, and at a frame of \<open>2 ^ 63\<close> bytes.
\<close>

theorem readData_empty_range_negative_counterexample:
  "\<forall>lim. Frms6Reader_readData lim example_file (- 15, - 15) 2 2 = Inl OSError \<and>
     Frms6Reader_readData lim example_file (2 ^ 63, 2 ^ 63) 2 2 = Inl ValueError \<and>
     Frms6Reader_readData lim example_file (0, 0) (2 ^ 31) (2 ^ 31) = Inl StructError"
proof -
  have fs: "getFrameSizeInBytes 2 2 = Inr 8"
    using getFrameSizeInBytes_eq [of 2 2] by simp
  have big: "getFrameSizeInBytes 2147483648 2147483648 = Inl StructError"
    by (rule getFrameSizeInBytes_big) (use str_limit in simp_all)
  show ?thesis
    by (simp add: Frms6Reader_readData_def Frms6Reader_readData_run_def fileHeaderSize
        frameHeaderSize fs big np_zeros_def NPY_MAX_INTP_def seek_set_def OFF_T_MAX_def)
qed

text \<open>
  C4, as the code has it. \<open>readData\<close> fails for every frame range whose start is
  greater than its end: numpy refuses the negative number of frames with
  \<open>ValueError\<close>, unless the product of \<open>pixels_x\<close> and \<open>pixels_y\<close> is negative or is
  \<open>2 ^ 62\<close> or more, which \<open>struct\<close> refuses first with \<open>struct.error\<close>; and a product of
  more than \<open>max_str_digits\<close> digits is refused by \<open>str\<close> before that, with \<open>ValueError\<close>.
\<close>

theorem readData_reversed_range:
  "e < s \<Longrightarrow>
     Frms6Reader_readData lim fl (s, e) pX pY =
       Inl (if (pX * pY < 0 \<or> 2 ^ 62 \<le> pX * pY) \<and> abs (pX * pY) < 10 ^ max_str_digits
            then StructError else ValueError)"
proof -
  assume es: "e < s"
  consider (huge) "10 ^ max_str_digits \<le> abs (pX * pY)"
    | (neg) "pX * pY < 0" "- (pX * pY) < 10 ^ max_str_digits"
    | (big) "2 ^ 62 \<le> pX * pY" "pX * pY < 10 ^ max_str_digits"
    | (mid) "0 \<le> pX * pY" "pX * pY < 2 ^ 62"
    by linarith
  then show ?thesis
  proof cases
    case huge
    then show ?thesis
      by (simp add: Frms6Reader_readData_def Frms6Reader_readData_run_def fileHeaderSize
          frameHeaderSize getFrameSizeInBytes_huge)
  next
    case neg
    then show ?thesis
      by (simp add: Frms6Reader_readData_def Frms6Reader_readData_run_def fileHeaderSize
          frameHeaderSize getFrameSizeInBytes_neg)
  next
    case big
    then show ?thesis
      by (simp add: Frms6Reader_readData_def Frms6Reader_readData_run_def fileHeaderSize
          frameHeaderSize getFrameSizeInBytes_big)
  next
    case mid
    then show ?thesis
      using es
      by (simp add: Frms6Reader_readData_def Frms6Reader_readData_run_def fileHeaderSize
          frameHeaderSize getFrameSizeInBytes_eq np_zeros_def)
  qed
qed

theorem readData_reversed_range_witness:
  "(3::int) < 5 \<and> Frms6Reader_readData 17592186040320 example_file (5, 3) 2 2 = Inl ValueError"
  using readData_reversed_range [of 3 5 17592186040320 example_file 2 2] by simp

theorem readData_range_not_checked_counterexample:
  "Frms6Reader_readData 17592186040320 example_file (3, 3) 2 2 =
     Inr \<lparr>dim_x = 2, dim_y = 2, dim_z = 0, cells = [[[], []], [[], []]]\<rparr> \<and>
   Frms6Reader_readData 17592186040320 example_file (- 1, 0) 2 2 =
     Inr \<lparr>dim_x = 2, dim_y = 2, dim_z = 1, cells = [[[0], [0]], [[0], [0]]]\<rparr>"
proof (intro conjI)
  show "Frms6Reader_readData 17592186040320 example_file (3, 3) 2 2 =
     Inr \<lparr>dim_x = 2, dim_y = 2, dim_z = 0, cells = [[[], []], [[], []]]\<rparr>"
    by (simp add: Frms6Reader_readData_def readData_run_empty numeral_2_eq_2
        example_file_length)
  show "Frms6Reader_readData 17592186040320 example_file (- 1, 0) 2 2 =
     Inr \<lparr>dim_x = 2, dim_y = 2, dim_z = 1, cells = [[[0], [0]], [[0], [0]]]\<rparr>"
    using readData_closed [of 2 2 "- 1" 0 example_file 17592186040320]
    by (simp add: example_file_def sample_at_def le_nat_def upt_conv_Cons)
      (simp add: numeral_2_eq_2)
qed

subsection \<open>Scanning the frame headers\<close>







subsection \<open>Opening a container\<close>

lemma find_from_found: "0 \<le> i \<Longrightarrow> find_from sub s i \<noteq> - 1 \<longleftrightarrow> sublist sub s"
proof (induction s arbitrary: i)
  case Nil
  then show ?case by auto
next
  case (Cons c cs)
  have "0 \<le> i + 1" using Cons.prems by simp
  from Cons.IH [OF this] show ?case
    using Cons.prems by (auto simp: sublist_Cons_right)
qed

lemma py_find_found: "py_find s sub \<noteq> - 1 \<longleftrightarrow> sublist sub s"
  by (simp add: py_find_def find_from_found)

lemma replace_Nil: "py_replace ''00000'' new [] = []"
  by (simp add: py_replace.simps)

lemma replace_match_gen:
  "old \<noteq> [] \<Longrightarrow> prefix old s \<Longrightarrow>
     py_replace old new s = new @ py_replace old new (drop (length old) s)"
  by (subst py_replace.simps) auto

lemma replace_skip_gen:
  "old \<noteq> [] \<Longrightarrow> \<not> prefix old (c # cs) \<Longrightarrow>
     py_replace old new (c # cs) = c # py_replace old new cs"
  by (subst py_replace.simps) simp

lemma replace_match:
  assumes "prefix ''00000'' s"
  shows "py_replace ''00000'' new s = new @ py_replace ''00000'' new (drop 5 s)"
proof -
  have l: "length ''00000'' = 5" by simp
  have "''00000'' \<noteq> []" by simp
  from replace_match_gen [OF this assms, of new] show ?thesis
    unfolding l .
qed

lemma prefix_zeros_Cons:
  "prefix (replicate (Suc j) z) (c # r) \<longleftrightarrow> c = z \<and> prefix (replicate j z) r"
  by auto

lemma zeros5: "''00000'' = replicate (Suc 4) CHR ''0''"
  by (simp add: numeral_eq_Suc)

lemma replace_skip:
  "\<not> prefix ''00000'' (c # cs) \<Longrightarrow>
     py_replace ''00000'' new (c # cs) = c # py_replace ''00000'' new cs"
  by (rule replace_skip_gen) simp

text \<open>The replacement splits the string at the occurrences and joins the pieces anew.\<close>

lemma replace_join:
  "\<exists>pieces. pieces \<noteq> [] \<and> s = join ''00000'' pieces \<and>
     py_replace ''00000'' new s = join new pieces"
proof (induction "length s" arbitrary: s rule: less_induct)
  case less
  show ?case
  proof (cases s)
    case Nil
    have "([[]] :: string list) \<noteq> [] \<and> s = join ''00000'' [[]] \<and>
        py_replace ''00000'' new s = join new [[]]"
      by (simp add: Nil replace_Nil)
    then show ?thesis by blast
  next
    case (Cons c cs)
    show ?thesis
    proof (cases "prefix ''00000'' s")
      case True
      then have s: "s = ''00000'' @ drop 5 s"
        by (auto simp: prefix_def)
      then have "length (drop 5 s) < length s" by (simp add: Cons)
      from less [OF this] obtain ps where ps: "ps \<noteq> []" "drop 5 s = join ''00000'' ps"
        "py_replace ''00000'' new (drop 5 s) = join new ps"
        by blast
      from ps(1) obtain q qs where q: "ps = q # qs" by (cases ps) auto
      have "s = join ''00000'' ([] # ps)"
        using s ps(2) by (simp add: q)
      moreover have "py_replace ''00000'' new s = join new ([] # ps)"
        using ps(3) by (simp add: replace_match [OF True] q)
      ultimately show ?thesis by blast
    next
      case False
      have "length cs < length s" by (simp add: Cons)
      from less [OF this] obtain ps where ps: "ps \<noteq> []" "cs = join ''00000'' ps"
        "py_replace ''00000'' new cs = join new ps"
        by blast
      from ps(1) obtain q qs where q: "ps = q # qs" by (cases ps) auto
      have j: "join sep ((c # q) # qs) = c # join sep (q # qs)" for sep :: string
        by (cases qs) simp_all
      have "s = join ''00000'' ((c # q) # qs)"
        using ps(2) by (simp add: Cons q j)
      moreover have "py_replace ''00000'' new s = join new ((c # q) # qs)"
        using ps(3) False by (simp add: Cons replace_skip q j)
      ultimately show ?thesis by blast
    qed
  qed
qed

text \<open>Zeros at the head of the result were at the head of the argument.\<close>

lemma replace_leading_zeros:
  "prefix (replicate j CHR ''0'') (py_replace ''00000'' ''%05d'' s) \<Longrightarrow>
     prefix (replicate j CHR ''0'') s"
proof (induction "length s" arbitrary: s j rule: less_induct)
  case less
  show ?case
  proof (cases s)
    case Nil
    with less.prems show ?thesis by (simp add: replace_Nil)
  next
    case (Cons c cs)
    show ?thesis
    proof (cases "prefix ''00000'' s")
      case True
      with less.prems have "prefix (replicate j CHR ''0'') (''%05d'' @ py_replace ''00000'' ''%05d'' (drop 5 s))"
        by (simp add: replace_match)
      then have "j = 0" by (cases j) simp_all
      then show ?thesis by simp
    next
      case False
      show ?thesis
      proof (cases j)
        case 0
        then show ?thesis by simp
      next
        case (Suc j')
        have "py_replace ''00000'' ''%05d'' s = c # py_replace ''00000'' ''%05d'' cs"
          using False unfolding Cons by (rule replace_skip)
        with less.prems
        have p: "prefix (replicate (Suc j') CHR ''0'') (c # py_replace ''00000'' ''%05d'' cs)"
          by (simp only: Suc)
        then have c: "c = CHR ''0''"
          and r: "prefix (replicate j' CHR ''0'') (py_replace ''00000'' ''%05d'' cs)"
          unfolding prefix_zeros_Cons by blast+
        have "length cs < length s" by (simp add: Cons)
        then have "prefix (replicate j' CHR ''0'') cs"
          using r by (rule less.hyps)
        then show ?thesis unfolding Cons Suc prefix_zeros_Cons using c by blast
      qed
    qed
  qed
qed

lemma replace_no_occurrence: "\<not> sublist ''00000'' (py_replace ''00000'' ''%05d'' s)"
proof (induction "length s" arbitrary: s rule: less_induct)
  case less
  show ?case
  proof (cases s)
    case Nil
    then show ?thesis by (simp add: replace_Nil)
  next
    case (Cons c cs)
    show ?thesis
    proof (cases "prefix ''00000'' s")
      case True
      have "length (drop 5 s) < length s" by (simp add: Cons)
      from less [OF this] show ?thesis
        by (simp add: replace_match [OF True] sublist_Cons_right)
    next
      case False
      have "length cs < length s" by (simp add: Cons)
      from less [OF this] have rest: "\<not> sublist ''00000'' (py_replace ''00000'' ''%05d'' cs)" .
      have skip: "py_replace ''00000'' ''%05d'' s = c # py_replace ''00000'' ''%05d'' cs"
        using False unfolding Cons by (rule replace_skip)
      have "\<not> prefix ''00000'' (c # py_replace ''00000'' ''%05d'' cs)"
      proof
        assume "prefix ''00000'' (c # py_replace ''00000'' ''%05d'' cs)"
        then have p: "prefix (replicate (Suc 4) CHR ''0'') (c # py_replace ''00000'' ''%05d'' cs)"
          by (simp only: zeros5 [symmetric])
        then have c: "c = CHR ''0''"
          and r: "prefix (replicate 4 CHR ''0'') (py_replace ''00000'' ''%05d'' cs)"
          unfolding prefix_zeros_Cons by blast+
        from r have "prefix (replicate 4 CHR ''0'') cs"
          by (rule replace_leading_zeros)
        then have "prefix (replicate (Suc 4) CHR ''0'') (c # cs)"
          unfolding prefix_zeros_Cons using c by blast
        then have "prefix ''00000'' s"
          by (simp only: zeros5 [symmetric] Cons)
        with False show False by simp
      qed
      with rest show ?thesis
        unfolding skip by (simp only: sublist_Cons_right) simp
    qed
  qed
qed

text \<open>
  C10. The container readers (\<open>readData\<close> and \<open>getDataSize\<close>, through the same lines)
  open a family of files if and only if \<open>00000\<close> occurs somewhere in the path, directory
  components included; then every occurrence of \<open>00000\<close>, taken from the left, is
  replaced by \<open>%05d\<close>: the path is some pieces joined by \<open>00000\<close>, the pattern the same
  pieces joined by \<open>%05d\<close>, and no \<open>00000\<close> is left in it.
\<close>

theorem open_container_family:
  "(if sublist ''00000'' filename
    then open_container filename =
           H5Family (py_replace ''00000'' ''%05d'' filename) (20 * 1024 ^ 3) \<and>
         \<not> sublist ''00000'' (py_replace ''00000'' ''%05d'' filename) \<and>
         (\<exists>pieces. filename = join ''00000'' pieces \<and>
            py_replace ''00000'' ''%05d'' filename = join ''%05d'' pieces)
    else open_container filename = H5Single filename)"
proof (cases "sublist ''00000'' filename")
  case True
  from replace_join [of filename "''%05d''"] obtain pieces where
    "filename = join ''00000'' pieces"
    "py_replace ''00000'' ''%05d'' filename = join ''%05d'' pieces"
    by blast
  then have "\<exists>pieces. filename = join ''00000'' pieces \<and>
      py_replace ''00000'' ''%05d'' filename = join ''%05d'' pieces"
    by blast
  moreover have "open_container filename =
      H5Family (py_replace ''00000'' ''%05d'' filename) (20 * 1024 ^ 3)"
    using True unfolding open_container_def py_find_found by (simp only: if_True)
  ultimately show ?thesis
    using True replace_no_occurrence [of filename] by (simp only: if_True) blast
next
  case False
  then have "open_container filename = H5Single filename"
    unfolding open_container_def py_find_found by (simp only: if_False)
  with False show ?thesis by (simp only: if_False)
qed

theorem open_container_family_witness:
  "open_container ''/d00000/run_000000.h5'' = H5Family ''/d%05d/run_%05d0.h5'' (20 * 1024 ^ 3) \<and>
   open_container ''/data/run_0000.h5'' = H5Single ''/data/run_0000.h5''"
proof -
  have "sublist ''00000'' ''/d00000/run_000000.h5''"
    by (simp add: sublist_Cons_right)
  with open_container_family [of "''/d00000/run_000000.h5''"]
  have "open_container ''/d00000/run_000000.h5'' =
      H5Family (py_replace ''00000'' ''%05d'' ''/d00000/run_000000.h5'') (20 * 1024 ^ 3)"
    by (simp only: if_True)
  moreover have "py_replace ''00000'' ''%05d'' ''/d00000/run_000000.h5'' = ''/d%05d/run_%05d0.h5''"
    by (simp add: py_replace.simps)
  moreover have "\<not> sublist ''00000'' ''/data/run_0000.h5''"
    by (simp add: sublist_Cons_right)
  with open_container_family [of "''/data/run_0000.h5''"]
  have "open_container ''/data/run_0000.h5'' = H5Single ''/data/run_0000.h5''"
    by (simp only: if_False)
  ultimately show ?thesis by simp
qed

subsection \<open>The container reader\<close>

text \<open>
  C7. Whatever the options and the stored type of the dataset, an array that the
  container reader \<open>readData\<close> returns has 64-bit floating-point elements.
\<close>

theorem readData_returns_float64:
  "readData h5 convertible filename path opts = Inr d \<Longrightarrow> arr_dtype d = Float64"
  by (auto simp: readData_def np_asarray_float64_def split: sum.splits option.splits if_splits)

theorem readData_returns_float64_witness:
  "readData (\<lambda>how. Inr (\<lambda>p. if p = ''/stream''
        then Some \<lparr>arr_dtype = Stored ''uint16'', arr_shape = [4, 4, 10]\<rparr> else None))
      (\<lambda>a. True) ''run_00000.h5'' ''/stream''
      \<lparr>image_range = Some (2, 5), x_range = None, y_range = None, simulated = False\<rparr> =
     Inr \<lparr>arr_dtype = Float64, arr_shape = [4, 4, 3]\<rparr> \<and>
   arr_dtype \<lparr>arr_dtype = Float64, arr_shape = [4, 4, 3]\<rparr> = Float64"
proof -
  have r: "readData (\<lambda>how. Inr (\<lambda>p. if p = ''/stream''
        then Some \<lparr>arr_dtype = Stored ''uint16'', arr_shape = [4, 4, 10]\<rparr> else None))
      (\<lambda>a. True) ''run_00000.h5'' ''/stream''
      \<lparr>image_range = Some (2, 5), x_range = None, y_range = None, simulated = False\<rparr> =
     Inr \<lparr>arr_dtype = Float64, arr_shape = [4, 4, 3]\<rparr>"
    by (simp add: readData_def select_images_def select_pixels_def index3_def slice_len_def
        clip_index_def np_asarray_float64_def)
  from readData_returns_float64 [OF r] r show ?thesis by simp
qed

end
